theory Spec2Isabelle
  imports
    Main
    "HOL-Library.Sublist"
    "HOL-Library.AList"
    "HOL-Library.Char_ord"
    "HOL-Library.List_Lexorder"
    "HOL-Library.Product_Lexorder"
begin

section \<open>Text\<close>

text \<open>
  A Python \<open>str\<close> is modelled as a \<open>string\<close> holding its UTF-8 encoding, a \<open>bytes\<close>
  value as the \<open>string\<close> of its bytes. The encoding of a character never starts inside
  the encoding of another one, so the encoding of a text occurs in the encoding of
  another exactly where the text occurs in it: \<open>x in s\<close> is \<^const>\<open>sublist\<close>,
  \<open>s.startswith(x)\<close> is \<^const>\<open>prefix\<close> and \<open>s.endswith(x)\<close> is \<^const>\<open>suffix\<close>.
  Where the program works on the characters of a text (\<open>\d\<close>, \<open>int\<close>, \<open>strip\<close>,
  \<open>isdigit\<close>), the model splits the encoding into characters first. Logging has no
  effect on any result and is left out.
\<close>

definition is_upper :: "char \<Rightarrow> bool" where
  "is_upper c = (CHR ''A'' \<le> c \<and> c \<le> CHR ''Z'')"

definition is_lower :: "char \<Rightarrow> bool" where
  "is_lower c = (CHR ''a'' \<le> c \<and> c \<le> CHR ''z'')"

definition is_digit :: "char \<Rightarrow> bool" where
  "is_digit c = (CHR ''0'' \<le> c \<and> c \<le> CHR ''9'')"

text \<open>The character class \<open>[A-Za-z0-9]\<close>.\<close>

definition is_alnum :: "char \<Rightarrow> bool" where
  "is_alnum c = (is_upper c \<or> is_lower c \<or> is_digit c)"

definition lower_char :: "char \<Rightarrow> char" where
  "lower_char c = (if is_upper c then char_of (of_char c + (32::nat)) else c)"

text \<open>
  \<open>str.lower()\<close>. \<open>lower_special\<close> gives, for a text that starts with one of the
  characters below, the lower case of that character and the number of its bytes:
  the capital letters U+00C0 to U+00DE other than U+00D7 (\<open>0xC3\<close> then \<open>0x80\<close> to
  \<open>0x9E\<close>, the lower case \<open>0x20\<close> further), U+0130 (lower case \<open>i\<close> and U+0307),
  U+0178, U+1E9E, U+212A (the Kelvin sign, lower case \<open>k\<close>) and U+212B. With the ASCII
  letters these are all the characters whose lower case holds a character up to U+00FF;
  the other characters are left as they are, and every keyword of the program is made of
  characters up to U+00FF.
\<close>

definition lower_special :: "string \<Rightarrow> (string \<times> nat) option" where
  "lower_special s =
     (case s of
        c # d # rest \<Rightarrow>
          if c = CHR 0xC3 \<and> CHR 0x80 \<le> d \<and> d \<le> CHR 0x9E \<and> d \<noteq> CHR 0x97
          then Some ([c, char_of (of_char d + (32::nat))], 2)
          else if c = CHR 0xC4 \<and> d = CHR 0xB0 then Some ([CHR ''i'', CHR 0xCC, CHR 0x87], 2)
          else if c = CHR 0xC5 \<and> d = CHR 0xB8 then Some ([CHR 0xC3, CHR 0xBF], 2)
          else if c = CHR 0xE1 \<and> d = CHR 0xBA \<and> prefix [CHR 0x9E] rest
          then Some ([CHR 0xC3, CHR 0x9F], 3)
          else if c = CHR 0xE2 \<and> d = CHR 0x84 \<and> prefix [CHR 0xAA] rest then Some (''k'', 3)
          else if c = CHR 0xE2 \<and> d = CHR 0x84 \<and> prefix [CHR 0xAB] rest
          then Some ([CHR 0xC3, CHR 0xA5], 3)
          else None
      | _ \<Rightarrow> None)"

fun lower :: "string \<Rightarrow> string" where
  "lower [] = []"
| "lower (c # cs) =
     (case lower_special (c # cs) of
        None \<Rightarrow> lower_char c # lower cs
      | Some (lowered, n) \<Rightarrow> lowered @ lower (drop (n - 1) cs))"

text \<open>\<open>s.strip(chars)\<close>, \<open>s.lstrip(chars)\<close>.\<close>

definition lstrip_chars :: "string \<Rightarrow> string \<Rightarrow> string" where
  "lstrip_chars chars s = dropWhile (\<lambda>c. c \<in> set chars) s"

definition rstrip_chars :: "string \<Rightarrow> string \<Rightarrow> string" where
  "rstrip_chars chars s = rev (dropWhile (\<lambda>c. c \<in> set chars) (rev s))"

definition strip_chars :: "string \<Rightarrow> string \<Rightarrow> string" where
  "strip_chars chars s = rstrip_chars chars (lstrip_chars chars s)"

text \<open>
  The ASCII whitespace of \<open>bytes.lstrip()\<close>: space, tab, line feed, vertical tab, form feed,
  carriage return.
\<close>

definition bytes_whitespace :: string where
  "bytes_whitespace = [CHR 0x20, CHR 0x09, CHR 0x0A, CHR 0x0B, CHR 0x0C, CHR 0x0D]"

text \<open>\<open>sep.join(parts)\<close>.\<close>

fun join :: "string \<Rightarrow> string list \<Rightarrow> string" where
  "join sep [] = []"
| "join sep [p] = p"
| "join sep (p # q # ps) = p @ sep @ join sep (q # ps)"

text \<open>\<open>s.split(sep)\<close> for a one-character separator; the result is never empty.\<close>

fun split_on :: "char \<Rightarrow> string \<Rightarrow> string list" where
  "split_on sep [] = [[]]"
| "split_on sep (c # cs) =
     (if c = sep then [] # split_on sep cs
      else (case split_on sep cs of
              [] \<Rightarrow> [[c]]
            | p # ps \<Rightarrow> (c # p) # ps))"

section \<open>Characters\<close>

text \<open>
  The characters of a text: each byte that is not a continuation byte (\<open>0x80\<close> to
  \<open>0xBF\<close>) starts a character, which holds the continuation bytes that follow it.
  \<open>utf8_decode\<close> reads the code point of the character a text starts with and the number
  of its bytes, \<open>char_point\<close> the code point of one character.
\<close>

definition is_cont :: "char \<Rightarrow> bool" where
  "is_cont c = (CHR 0x80 \<le> c \<and> c \<le> CHR 0xBF)"

fun utf8_chars :: "string \<Rightarrow> string list" where
  "utf8_chars [] = []"
| "utf8_chars (b # bs) =
     (case bs of
        [] \<Rightarrow> [[b]]
      | c # _ \<Rightarrow>
          if is_cont c
          then (case utf8_chars bs of [] \<Rightarrow> [[b]] | g # gs \<Rightarrow> (b # g) # gs)
          else [b] # utf8_chars bs)"

definition cont_bits :: "char \<Rightarrow> int" where
  "cont_bits c = of_char c - 0x80"

definition utf8_decode :: "string \<Rightarrow> (int \<times> nat) option" where
  "utf8_decode s =
     (case s of
        [] \<Rightarrow> None
      | b0 # r \<Rightarrow>
          (let n0 = (of_char b0 :: int) in
           if n0 < 0x80 then Some (n0, 1)
           else if 0xC2 \<le> n0 \<and> n0 < 0xE0 then
             (case r of
                b1 # _ \<Rightarrow>
                  if is_cont b1 then Some ((n0 - 0xC0) * 64 + cont_bits b1, 2) else None
              | _ \<Rightarrow> None)
           else if 0xE0 \<le> n0 \<and> n0 < 0xF0 then
             (case r of
                b1 # b2 # _ \<Rightarrow>
                  if is_cont b1 \<and> is_cont b2
                  then Some ((n0 - 0xE0) * 4096 + cont_bits b1 * 64 + cont_bits b2, 3)
                  else None
              | _ \<Rightarrow> None)
           else if 0xF0 \<le> n0 \<and> n0 < 0xF5 then
             (case r of
                b1 # b2 # b3 # _ \<Rightarrow>
                  if is_cont b1 \<and> is_cont b2 \<and> is_cont b3
                  then Some ((n0 - 0xF0) * 262144 + cont_bits b1 * 4096 + cont_bits b2 * 64
                               + cont_bits b3, 4)
                  else None
              | _ \<Rightarrow> None)
           else None))"

definition char_point :: "string \<Rightarrow> int option" where
  "char_point c =
     (case utf8_decode c of
        None \<Rightarrow> None
      | Some (cp, n) \<Rightarrow> if n = length c then Some cp else None)"

text \<open>
  The decimal digits (category \<open>Nd\<close>) of Unicode 14.0, the database of Python 3.11: they
  come in blocks of ten, the digits 0 to 9, and the table lists the zero of each block.
  These are the characters that \<open>\d\<close> matches in a \<open>str\<close> pattern and that \<open>int()\<close>
  reads.
\<close>

definition unicode_decimal_zeros :: "int list" where
  "unicode_decimal_zeros =
     [0x30, 0x660, 0x6F0, 0x7C0, 0x966, 0x9E6, 0xA66, 0xAE6, 0xB66, 0xBE6, 0xC66, 0xCE6,
      0xD66, 0xDE6, 0xE50, 0xED0, 0xF20, 0x1040, 0x1090, 0x17E0, 0x1810, 0x1946, 0x19D0,
      0x1A80, 0x1A90, 0x1B50, 0x1BB0, 0x1C40, 0x1C50, 0xA620, 0xA8D0, 0xA900, 0xA9D0,
      0xA9F0, 0xAA50, 0xABF0, 0xFF10, 0x104A0, 0x10D30, 0x11066, 0x110F0, 0x11136,
      0x111D0, 0x112F0, 0x11450, 0x114D0, 0x11650, 0x116C0, 0x11730, 0x118E0, 0x11950,
      0x11C50, 0x11D50, 0x11DA0, 0x16A60, 0x16AC0, 0x16B50, 0x1D7CE, 0x1D7D8, 0x1D7E2,
      0x1D7EC, 0x1D7F6, 0x1E140, 0x1E2F0, 0x1E950, 0x1FBF0]"

definition decimal_value :: "int \<Rightarrow> int option" where
  "decimal_value cp =
     map_option (\<lambda>z. cp - z) (List.find (\<lambda>z. z \<le> cp \<and> cp < z + 10) unicode_decimal_zeros)"

definition char_decimal :: "string \<Rightarrow> int option" where
  "char_decimal c = (case char_point c of None \<Rightarrow> None | Some cp \<Rightarrow> decimal_value cp)"

definition decimal_char :: "string \<Rightarrow> bool" where
  "decimal_char c = (char_decimal c \<noteq> None)"

text \<open>
  \<open>str.isdigit()\<close>: the text is not empty and each of its characters is a decimal
  digit or one of the other digits of Unicode 14.0 (numeric type \<open>Digit\<close>: superscripts,
  subscripts, circled digits and the like), listed by their ranges. \<open>int()\<close> reads none
  of these other digits.
\<close>

definition unicode_other_digits :: "(int \<times> int) list" where
  "unicode_other_digits =
     [(0xB2, 0xB3), (0xB9, 0xB9), (0x1369, 0x1371), (0x19DA, 0x19DA), (0x2070, 0x2070),
      (0x2074, 0x2079), (0x2080, 0x2089), (0x2460, 0x2468), (0x2474, 0x247C),
      (0x2488, 0x2490), (0x24EA, 0x24EA), (0x24F5, 0x24FD), (0x24FF, 0x24FF),
      (0x2776, 0x277E), (0x2780, 0x2788), (0x278A, 0x2792), (0x10A40, 0x10A43),
      (0x10E60, 0x10E68), (0x11052, 0x1105A), (0x1F100, 0x1F10A)]"

definition digit_char_any :: "string \<Rightarrow> bool" where
  "digit_char_any c =
     (decimal_char c
      \<or> (case char_point c of
            None \<Rightarrow> False
          | Some cp \<Rightarrow> list_ex (\<lambda>(lo, hi). lo \<le> cp \<and> cp \<le> hi) unicode_other_digits))"

definition isdigit :: "string \<Rightarrow> bool" where
  "isdigit s = (s \<noteq> [] \<and> list_all digit_char_any (utf8_chars s))"

text \<open>
  The characters for which \<open>str.isspace()\<close> holds, and \<open>s.strip()\<close>, which removes them
  from both ends of a text.
\<close>

definition unicode_spaces :: "int list" where
  "unicode_spaces =
     [0x9, 0xA, 0xB, 0xC, 0xD, 0x1C, 0x1D, 0x1E, 0x1F, 0x20, 0x85, 0xA0, 0x1680, 0x2000,
      0x2001, 0x2002, 0x2003, 0x2004, 0x2005, 0x2006, 0x2007, 0x2008, 0x2009, 0x200A,
      0x2028, 0x2029, 0x202F, 0x205F, 0x3000]"

definition space_char :: "string \<Rightarrow> bool" where
  "space_char c = (case char_point c of None \<Rightarrow> False | Some cp \<Rightarrow> cp \<in> set unicode_spaces)"

definition strip_list :: "('a \<Rightarrow> bool) \<Rightarrow> 'a list \<Rightarrow> 'a list" where
  "strip_list P xs = rev (dropWhile P (rev (dropWhile P xs)))"

definition py_strip :: "string \<Rightarrow> string" where
  "py_strip s = concat (strip_list space_char (utf8_chars s))"

section \<open>Classifiers\<close>

text \<open>
  \<open>EXAM_YEAR_RE = (20\d{2}|19\d{2})\<close>, on the characters of the text: \<open>year_at\<close> is a
  match at the start, \<open>search_year\<close> is \<open>search\<close>, which tries each start position from the
  left, and \<open>identify_year\<close> returns group 1 of the first match, the text of its four
  characters. \<open>\d\<close> is any decimal digit.
\<close>

fun year_at :: "string list \<Rightarrow> string list option" where
  "year_at (a # b # c # d # rest) =
     (if ((a = ''2'' \<and> b = ''0'') \<or> (a = ''1'' \<and> b = ''9''))
         \<and> decimal_char c \<and> decimal_char d
      then Some [a, b, c, d] else None)"
| "year_at _ = None"

fun search_year :: "string list \<Rightarrow> string list option" where
  "search_year [] = None"
| "search_year (c # cs) =
     (case year_at (c # cs) of
        Some y \<Rightarrow> Some y
      | None \<Rightarrow> search_year cs)"

definition identify_year :: "string \<Rightarrow> string option" where
  "identify_year text = map_option concat (search_year (utf8_chars text))"

definition SESSION_KEYWORDS :: "(string list \<times> string) list" where
  "SESSION_KEYWORDS =
     [([''normale'', ''normal'', ''principale'', ''main'', ''regular''], ''Normale''),
      ([''rattrap'', ''retake'', ''extraordinaire''], ''Rattrapage'')]"

fun identify_session_loop :: "(string list \<times> string) list \<Rightarrow> string \<Rightarrow> string option" where
  "identify_session_loop [] lowered = None"
| "identify_session_loop ((keywords, label) # rest) lowered =
     (if \<exists>keyword \<in> set keywords. sublist keyword lowered then Some label
      else identify_session_loop rest lowered)"

definition identify_session :: "string \<Rightarrow> string option" where
  "identify_session text = identify_session_loop SESSION_KEYWORDS (lower text)"

definition identify_asset_type :: "string \<Rightarrow> string option" where
  "identify_asset_type text =
     (let lowered = lower text in
      if sublist ''corrig'' lowered then Some ''Correction''
      else if sublist ''sujet'' lowered \<or> sublist ''examen'' lowered then Some ''MainExam''
      else None)"

section \<open>File names\<close>

text \<open>
  \<open>re.sub(r"[^A-Za-z0-9]+", "_", part)\<close>: every maximal run of characters outside the class
  is replaced by one underscore.
\<close>

function re_sub_non_alnum :: "string \<Rightarrow> string" where
  "re_sub_non_alnum [] = []"
| "re_sub_non_alnum (c # cs) =
     (if is_alnum c then c # re_sub_non_alnum cs
      else CHR ''_'' # re_sub_non_alnum (dropWhile (\<lambda>x. \<not> is_alnum x) cs))"
  by pat_completeness auto
termination
  by (relation "measure length") (auto simp: less_Suc_eq_le length_dropWhile_le)

definition clean_part :: "string \<Rightarrow> string" where
  "clean_part part = strip_chars ''_'' (re_sub_non_alnum part)"

definition sanitize_filename :: "string list \<Rightarrow> string \<Rightarrow> string" where
  "sanitize_filename parts sfx =
     (let safe_parts = filter (\<lambda>clean. clean \<noteq> []) (map clean_part parts);
          combined = (if safe_parts \<noteq> [] then join ''_'' safe_parts else ''document'')
      in combined @ sfx)"

section \<open>Integers and text\<close>

text \<open>
  \<open>int(s)\<close> in base 10, on the characters of the text: whitespace around the literal,
  one optional sign, then decimal digits of any script, in which single underscores may
  separate digits; \<open>None\<close> stands for \<open>ValueError\<close>. The whitespace that \<open>int\<close> skips is
  that of \<open>str.isspace()\<close> other than the separators U+001C to U+001F. The interpreter's
  limit on the length of a literal is not modelled.
\<close>

definition int_space_char :: "string \<Rightarrow> bool" where
  "int_space_char c =
     (case char_point c of
        None \<Rightarrow> False
      | Some cp \<Rightarrow> cp \<in> set unicode_spaces \<and> \<not> (0x1C \<le> cp \<and> cp \<le> 0x1F))"

fun int_digits :: "int \<Rightarrow> string list \<Rightarrow> int option" where
  "int_digits acc [] = Some acc"
| "int_digits acc (c # cs) =
     (case char_decimal c of
        Some v \<Rightarrow> int_digits (10 * acc + v) cs
      | None \<Rightarrow>
          if c = ''_'' \<and> (case cs of [] \<Rightarrow> False | d # _ \<Rightarrow> decimal_char d)
          then int_digits acc cs
          else None)"

definition int_literal :: "string list \<Rightarrow> int option" where
  "int_literal cs =
     (case cs of [] \<Rightarrow> None | c # _ \<Rightarrow> if decimal_char c then int_digits 0 cs else None)"

definition py_int :: "string \<Rightarrow> int option" where
  "py_int s =
     (case strip_list int_space_char (utf8_chars s) of
        [] \<Rightarrow> None
      | c # cs \<Rightarrow>
          if c = ''-'' then map_option uminus (int_literal cs)
          else if c = ''+'' then int_literal cs
          else int_literal (c # cs))"

text \<open>\<open>str(n)\<close> of an integer.\<close>

definition digit_char :: "nat \<Rightarrow> char" where
  "digit_char n = char_of (48 + n)"

fun nat_digits :: "nat \<Rightarrow> string" where
  "nat_digits n = (if n < 10 then [digit_char n] else nat_digits (n div 10) @ [digit_char (n mod 10)])"

definition py_str :: "int \<Rightarrow> string" where
  "py_str i = (if i < 0 then CHR ''-'' # nat_digits (nat (- i)) else nat_digits (nat i))"

text \<open>
  \<open>urllib.parse.quote(s)\<close> with its default \<open>safe="/"\<close>: every byte of the UTF-8 encoding
  other than a letter, a digit and \<open>_.-~/\<close> becomes \<open>%XX\<close> in upper-case hexadecimal.
\<close>

definition hex_digit :: "nat \<Rightarrow> char" where
  "hex_digit n = (if n < 10 then char_of (48 + n) else char_of (55 + n))"

definition quote_char :: "char \<Rightarrow> string" where
  "quote_char c =
     (if is_alnum c \<or> c \<in> set ''_.-~/'' then [c]
      else [CHR ''%'', hex_digit (of_char c div 16), hex_digit (of_char c mod 16)])"

definition quote :: "string \<Rightarrow> string" where
  "quote s = concat (map quote_char s)"

section \<open>Libraries and the network\<close>

text \<open>
  \<open>urllib.parse\<close> is not part of the program: the model takes its functions as a parameter.
  \<open>urljoin\<close> and \<open>urlparse\<close> raise \<open>ValueError\<close> on some inputs (an unbalanced bracket in
  the authority), which no code of the program catches.
\<close>

datatype exc = ValueError

record ParseResult =
  netloc :: string
  path :: string
  query :: string

record library =
  urljoin :: "string \<Rightarrow> string \<Rightarrow> exc + string"
  urlparse :: "string \<Rightarrow> exc + ParseResult"
  parse_qs :: "string \<Rightarrow> (string \<times> string list) list"
  unquote :: "string \<Rightarrow> string"

text \<open>
  An anchor as \<open>BeautifulSoup\<close> hands it over: \<open>anchor.get("href")\<close> and
  \<open>anchor.get_text(strip=True)\<close>. A fetched page is represented by the anchors that the
  selector \<open>article a[href], main a[href], .entry-content a[href]\<close> finds in it, in document order.
\<close>

record anchor =
  href :: string
  get_text :: string

text \<open>
  The three kinds of request. \<open>PageError\<close>, \<open>HeadError\<close> and \<open>GetError\<close> are a
  \<open>requests.RequestException\<close>. A streamed body is the chunks \<open>iter_content\<close> yields;
  the flag says that the iteration then raises a \<open>RequestException\<close> instead of ending.
  Responses are a function of the URL for the length of a run.
\<close>

datatype page_response = PageError | PageResponse nat "anchor list"

datatype head_response = HeadError | HeadResponse nat

datatype get_response = GetError | GetResponse nat "string list" bool

record network =
  get_page :: "string \<Rightarrow> page_response"
  head :: "string \<Rightarrow> head_response"
  get_stream :: "string \<Rightarrow> get_response"

text \<open>\<open>response.raise_for_status()\<close> raises for the codes 400 to 599.\<close>

definition raises_for_status :: "nat \<Rightarrow> bool" where
  "raises_for_status code = (400 \<le> code \<and> code < 600)"

section \<open>Configuration\<close>

text \<open>A \<open>pathlib.Path\<close> is the list of its components; \<open>folder / name\<close> appends one.\<close>

type_synonym Path = "string list"

definition path_name :: "Path \<Rightarrow> string" where
  "path_name p = (if p = [] then [] else last p)"

record subject_config =
  label :: string
  folder :: Path
  pages :: "string list"

definition SUBJECT_SOURCES :: "Path \<Rightarrow> (string \<times> subject_config) list" where
  "SUBJECT_SOURCES ROOT_DIR =
     [(''Math'',
       \<lparr>label = ''Math'' @ [CHR 0xC3, CHR 0xA9] @ ''matiques'',
        folder = ROOT_DIR @ [''Math''],
        pages =
          [''https://telmidtice.com/2bac-pc-mathematiques-examens-nationaux/'',
           ''https://www.taalime.ma/examen-national-math-bac-sciences-mathematique-avec-correction-biof-pdf-maroc/'']\<rparr>),
      (''PC'',
       \<lparr>label = ''Sciences Physiques (PC)'',
        folder = ROOT_DIR @ [''PC''],
        pages =
          [''https://telmidtice.com/2bac-pc-pc-examens-nationaux/'',
           ''https://www.taalime.ma/examen-national-physique-chimie-bac-sciences-physique-svt-avec-correction-biof-pdf-maroc/'']\<rparr>),
      (''SVT'',
       \<lparr>label = ''Sciences de la Vie et de la Terre (SVT)'',
        folder = ROOT_DIR @ [''SVT''],
        pages =
          [''https://telmidtice.com/2bac-pc-svt-examens-nationaux/'',
           ''https://www.taalime.ma/examen-national-svt-bac-sciences-de-la-vie-et-de-la-terre-avec-correction-biof-pdf-maroc/'']\<rparr>)]"

definition YEARS :: "int list" where
  "YEARS = [2008..2024]"

definition TARGET_SESSIONS :: "string list" where
  "TARGET_SESSIONS = [''Normale'', ''Rattrapage'']"

definition TARGET_ASSET_TYPES :: "string list" where
  "TARGET_ASSET_TYPES = [''MainExam'', ''Correction'']"

definition SESSION_LABELS :: "(string \<times> string) list" where
  "SESSION_LABELS = [(''Normale'', ''Normale''), (''Rattrapage'', ''Rattrapage'')]"

definition TYPE_LABELS :: "(string \<times> string) list" where
  "TYPE_LABELS = [(''MainExam'', ''Sujet''), (''Correction'', ''Corrig'' @ [CHR 0xC3, CHR 0xA9])]"

definition SESSION_ORDER :: "(string \<times> nat) list" where
  "SESSION_ORDER = [(''Normale'', 0), (''Rattrapage'', 1)]"

definition TYPE_ORDER :: "(string \<times> nat) list" where
  "TYPE_ORDER = [(''MainExam'', 0), (''Correction'', 1)]"

definition PREFERRED_DOMAINS :: "string list" where
  "PREFERRED_DOMAINS = [''telmidtice.com'', ''men.gov.ma'', ''drive.google.com'', ''docs.google.com'']"

text \<open>\<open>d.get(k, default)\<close> on a dictionary written as an association list.\<close>

definition get_default :: "('k \<times> 'v) list \<Rightarrow> 'k \<Rightarrow> 'v \<Rightarrow> 'v" where
  "get_default d k dflt = (case map_of d k of None \<Rightarrow> dflt | Some v \<Rightarrow> v)"

text \<open>
  A template and its \<open>format(year=..., session_label=..., type_label=...)\<close>: a function of the
  three texts put in the place of the fields, the year as \<open>str(year)\<close>. The dash of the titles is
  U+2013.
\<close>

record telmid_pattern =
  base_url :: string
  file_template :: "string \<Rightarrow> string \<Rightarrow> string \<Rightarrow> string"
  title_template :: "string \<Rightarrow> string \<Rightarrow> string \<Rightarrow> string"

definition en_dash :: string where
  "en_dash = [CHR 0xE2, CHR 0x80, CHR 0x93]"

definition TELMID_PATTERNS :: "(string \<times> telmid_pattern) list" where
  "TELMID_PATTERNS =
     [(''Math'',
       \<lparr>base_url = ''https://telmidtice.com/assets/2bac-pc/maths-fr/Examens Nationaux/'',
        file_template = (\<lambda>year session_label type_label.
          ''TelmidTice - Examen National Maths Sciences et Technologies '' @ year @ '' ''
            @ session_label @ '' - '' @ type_label @ ''.pdf''),
        title_template = (\<lambda>year session_label type_label.
          ''TelmidTICE Math'' @ [CHR 0xC3, CHR 0xA9] @ ''matiques '' @ year @ '' ''
            @ session_label @ '' '' @ en_dash @ '' '' @ type_label)\<rparr>),
      (''PC'',
       \<lparr>base_url = ''https://telmidtice.com/assets/2bac-pc/pc-fr/Examens Nationaux/'',
        file_template = (\<lambda>year session_label type_label.
          ''TelmidTice - Examen National Physique-Chimie SPC '' @ year @ '' ''
            @ session_label @ '' - '' @ type_label @ ''.pdf''),
        title_template = (\<lambda>year session_label type_label.
          ''TelmidTICE Physique-Chimie '' @ year @ '' ''
            @ session_label @ '' '' @ en_dash @ '' '' @ type_label)\<rparr>),
      (''SVT'',
       \<lparr>base_url = ''https://telmidtice.com/assets/2bac-pc/svt-fr/Examens Nationaux/'',
        file_template = (\<lambda>year session_label type_label.
          ''TelmidTice - Examen National SVT Sciences Physiques '' @ year @ '' ''
            @ session_label @ '' - '' @ type_label @ ''.pdf''),
        title_template = (\<lambda>year session_label type_label.
          ''TelmidTICE SVT '' @ year @ '' ''
            @ session_label @ '' '' @ en_dash @ '' '' @ type_label)\<rparr>)]"

section \<open>Candidates and canonical keys\<close>

record ExamAsset =
  subject_code :: string
  subject_label :: string
  year :: "string option"
  session :: "string option"
  asset_type :: string
  source_title :: string
  source_page :: string
  pdf_url :: string
  local_path :: Path

type_synonym canonical_key = "string \<times> int \<times> string \<times> string"

definition asset_key :: "ExamAsset \<Rightarrow> canonical_key option" where
  "asset_key asset =
     (case (year asset, session asset) of
        (Some y, Some s) \<Rightarrow>
          (case py_int y of
             None \<Rightarrow> None
           | Some year_int \<Rightarrow>
               (let session_name = get_default SESSION_LABELS s s in
                if session_name \<notin> set TARGET_SESSIONS then None
                else if asset_type asset \<notin> set TARGET_ASSET_TYPES then None
                else Some (subject_code asset, year_int, session_name, asset_type asset)))
      | _ \<Rightarrow> None)"

text \<open>
  \<open>host_rank\<close>, the function nested in \<open>prefer_asset\<close>: the loop over
  \<open>enumerate(PREFERRED_DOMAINS)\<close> returns at the first domain the host ends with.
\<close>

fun host_rank_loop :: "(nat \<times> string) list \<Rightarrow> string \<Rightarrow> nat" where
  "host_rank_loop [] host = length PREFERRED_DOMAINS"
| "host_rank_loop ((idx, domain) # rest) host =
     (if suffix domain host then idx else host_rank_loop rest host)"

definition host_rank :: "string \<Rightarrow> nat" where
  "host_rank host = host_rank_loop (enumerate 0 PREFERRED_DOMAINS) host"

definition prefer_asset :: "library \<Rightarrow> ExamAsset \<Rightarrow> ExamAsset \<Rightarrow> exc + bool" where
  "prefer_asset L candidate current =
     (case urlparse L (pdf_url candidate) of
        Inl e \<Rightarrow> Inl e
      | Inr parsed_candidate \<Rightarrow>
          (case urlparse L (pdf_url current) of
             Inl e \<Rightarrow> Inl e
           | Inr parsed_current \<Rightarrow>
               Inr (host_rank (lower (netloc parsed_candidate))
                      < host_rank (lower (netloc parsed_current)))))"

section \<open>Reconciliation\<close>

text \<open>
  The dictionary \<open>assets_by_key\<close> is an association list in insertion order: \<open>d.get(k)\<close>
  is \<^const>\<open>map_of\<close>, \<open>d[k] = v\<close> is \<^const>\<open>AList.update\<close>, which replaces the value of
  a key that is present and appends a new key otherwise.
\<close>

type_synonym assets_by_key = "(canonical_key \<times> ExamAsset) list"

text \<open>The loop of \<open>main\<close> over the assets harvested for one subject.\<close>

fun reconcile :: "library \<Rightarrow> assets_by_key \<Rightarrow> ExamAsset list \<Rightarrow> exc + assets_by_key" where
  "reconcile L m [] = Inr m"
| "reconcile L m (asset # rest) =
     (case asset_key asset of
        None \<Rightarrow> reconcile L m rest
      | Some key \<Rightarrow>
          (case map_of m key of
             None \<Rightarrow> reconcile L (AList.update key asset m) rest
           | Some existing \<Rightarrow>
               (case prefer_asset L asset existing of
                  Inl e \<Rightarrow> Inl e
                | Inr better \<Rightarrow>
                    reconcile L (if better then AList.update key asset m else m) rest)))"

section \<open>Gap synthesis\<close>

text \<open>
  \<open>build_telmid_asset\<close>: the candidate is built from the template of the subject and
  returned only when the \<open>HEAD\<close> request answers 200; any other status and a
  \<open>RequestException\<close> give \<open>None\<close>.
\<close>

definition telmid_url :: "telmid_pattern \<Rightarrow> int \<Rightarrow> string \<Rightarrow> string \<Rightarrow> string" where
  "telmid_url pattern yr session_label type_label =
     base_url pattern @ quote (file_template pattern (py_str yr) session_label type_label)"

definition build_telmid_asset ::
  "network \<Rightarrow> string \<Rightarrow> string \<Rightarrow> Path \<Rightarrow> int \<Rightarrow> string \<Rightarrow> string \<Rightarrow> ExamAsset option" where
  "build_telmid_asset N code subj_label subj_folder yr session_name type_name =
     (case map_of TELMID_PATTERNS code of
        None \<Rightarrow> None
      | Some pattern \<Rightarrow>
          (let session_label = get_default SESSION_LABELS session_name session_name in
           case map_of TYPE_LABELS type_name of
             None \<Rightarrow> None
           | Some type_label \<Rightarrow>
               (let url = telmid_url pattern yr session_label type_label in
                case head N url of
                  HeadError \<Rightarrow> None
                | HeadResponse status_code \<Rightarrow>
                    if status_code \<noteq> 200 then None
                    else
                      (let local_filename =
                             sanitize_filename [code, py_str yr, session_name, type_name] ''.pdf''
                       in Some
                            \<lparr>subject_code = code,
                             subject_label = subj_label,
                             year = Some (py_str yr),
                             session = Some session_name,
                             asset_type = type_name,
                             source_title =
                               title_template pattern (py_str yr) session_label type_label,
                             source_page = base_url pattern,
                             pdf_url = url,
                             local_path = subj_folder @ [local_filename]\<rparr>))))"

text \<open>
  The four nested loops of \<open>main\<close> over subjects, years, sessions and asset types, in the
  order in which they run.
\<close>

definition gap_targets :: "Path \<Rightarrow> (string \<times> subject_config \<times> int \<times> string \<times> string) list" where
  "gap_targets ROOT_DIR =
     [(code, config, yr, session_name, type_name).
        (code, config) \<leftarrow> SUBJECT_SOURCES ROOT_DIR,
        yr \<leftarrow> YEARS,
        session_name \<leftarrow> TARGET_SESSIONS,
        type_name \<leftarrow> TARGET_ASSET_TYPES]"

definition fill_gap ::
  "network \<Rightarrow> assets_by_key \<Rightarrow> string \<times> subject_config \<times> int \<times> string \<times> string \<Rightarrow> assets_by_key" where
  "fill_gap N m target =
     (case target of (code, config, yr, session_name, type_name) \<Rightarrow>
        (let key = (code, yr, session_name, type_name) in
         if map_of m key \<noteq> None then m
         else
           (case build_telmid_asset N code (label config) (folder config) yr session_name type_name of
              None \<Rightarrow> m
            | Some fallback_asset \<Rightarrow> AList.update key fallback_asset m)))"

definition fill_gaps ::
  "network \<Rightarrow> assets_by_key \<Rightarrow> (string \<times> subject_config \<times> int \<times> string \<times> string) list \<Rightarrow> assets_by_key" where
  "fill_gaps N m targets = foldl (fill_gap N) m targets"

section \<open>Link extraction\<close>

text \<open>\<open>parts[parts.index(x) + 1]\<close>; \<open>None\<close> stands for the \<open>IndexError\<close> that is caught.\<close>

fun after_first :: "'a \<Rightarrow> 'a list \<Rightarrow> 'a option" where
  "after_first x [] = None"
| "after_first x (y # ys) =
     (if y = x then (case ys of [] \<Rightarrow> None | z # _ \<Rightarrow> Some z) else after_first x ys)"

definition cloud_hosts :: "string list" where
  "cloud_hosts = [''drive.google.com'', ''docs.google.com'']"

definition normalize_pdf_url :: "library \<Rightarrow> string \<Rightarrow> string \<Rightarrow> exc + string" where
  "normalize_pdf_url L link base =
     (case urljoin L base link of
        Inl e \<Rightarrow> Inl e
      | Inr absolute \<Rightarrow>
          (case urlparse L absolute of
             Inl e \<Rightarrow> Inl e
           | Inr parsed \<Rightarrow>
               (case (if sublist ''telecharger'' (path parsed)
                      then map_of (parse_qs L (query parsed)) ''url'' else None) of
                  Some (target # others) \<Rightarrow> Inr (unquote L target)
                | _ \<Rightarrow>
                    if netloc parsed \<in> set cloud_hosts then
                      (let parts = split_on (CHR ''/'') (strip_chars ''/'' (path parsed)) in
                       if ''file'' \<in> set parts \<and> ''d'' \<in> set parts then
                         (case after_first ''d'' parts of
                            None \<Rightarrow> Inr absolute
                          | Some file_id \<Rightarrow>
                              Inr (''https://drive.google.com/uc?export=download&id='' @ file_id))
                       else Inr absolute)
                    else Inr absolute)))"

definition preparation :: string where
  "preparation = ''pr'' @ [CHR 0xC3, CHR 0xA9] @ ''paration''"

text \<open>\<open>x or default\<close> for an optional text: \<open>None\<close> and the empty text are false.\<close>

definition or_default :: "string option \<Rightarrow> string \<Rightarrow> string" where
  "or_default x dflt = (case x of None \<Rightarrow> dflt | Some v \<Rightarrow> if v = [] then dflt else v)"

text \<open>
  The body of the loop of \<open>parse_exam_links\<close>, on the two variables the loop updates: the
  assets found so far and \<open>seen_pdf_urls\<close>. A \<open>continue\<close> leaves both as they are; an
  exception of \<open>urljoin\<close> or \<open>urlparse\<close> ends the function.
\<close>

definition extract_anchor ::
  "library \<Rightarrow> string \<Rightarrow> string \<Rightarrow> string \<Rightarrow> Path \<Rightarrow> ExamAsset list \<times> string list \<Rightarrow> anchor
     \<Rightarrow> exc + (ExamAsset list \<times> string list)" where
  "extract_anchor L page_url code subj_label target_folder state a =
     (case state of (assets, seen_pdf_urls) \<Rightarrow>
        if href a = [] then Inr state
        else
          (case normalize_pdf_url L (href a) page_url of
             Inl e \<Rightarrow> Inl e
           | Inr url \<Rightarrow>
               if url = [] then Inr state
               else
                 (case urlparse L url of
                    Inl e \<Rightarrow> Inl e
                  | Inr parsed_pdf \<Rightarrow>
                      if \<not> suffix ''.pdf'' (lower url) \<and> netloc parsed_pdf \<notin> set cloud_hosts
                      then Inr state
                      else
                        (let title = get_text a in
                         if title = [] then Inr state
                         else if sublist preparation (lower title)
                                 \<or> sublist ''preparation'' (lower title)
                         then Inr state
                         else
                           (case identify_asset_type title of
                              None \<Rightarrow> Inr state
                            | Some type_name \<Rightarrow>
                                (let pdf_url_key = py_strip url in
                                 if pdf_url_key \<in> set seen_pdf_urls then Inr state
                                 else
                                   (let yr = identify_year title;
                                        sess = identify_session title;
                                        filename =
                                          sanitize_filename
                                            [code, or_default yr ''unknown_year'',
                                             or_default sess ''session'', type_name] ''.pdf'';
                                        asset =
                                          \<lparr>subject_code = code,
                                           subject_label = subj_label,
                                           year = yr,
                                           session = sess,
                                           asset_type = type_name,
                                           source_title = title,
                                           source_page = page_url,
                                           pdf_url = url,
                                           local_path = target_folder @ [filename]\<rparr>
                                    in Inr (assets @ [asset],
                                            pdf_url_key # seen_pdf_urls))))))))"

fun parse_anchors ::
  "library \<Rightarrow> string \<Rightarrow> string \<Rightarrow> string \<Rightarrow> Path \<Rightarrow> ExamAsset list \<times> string list \<Rightarrow> anchor list
     \<Rightarrow> exc + ExamAsset list" where
  "parse_anchors L page_url code subj_label target_folder state [] = Inr (fst state)"
| "parse_anchors L page_url code subj_label target_folder state (a # anchors) =
     (case extract_anchor L page_url code subj_label target_folder state a of
        Inl e \<Rightarrow> Inl e
      | Inr state' \<Rightarrow> parse_anchors L page_url code subj_label target_folder state' anchors)"

definition parse_exam_links ::
  "library \<Rightarrow> anchor list \<Rightarrow> string \<Rightarrow> string \<Rightarrow> string \<Rightarrow> Path \<Rightarrow> exc + ExamAsset list" where
  "parse_exam_links L anchors page_url code subj_label target_folder =
     parse_anchors L page_url code subj_label target_folder ([], []) anchors"

text \<open>
  \<open>harvest_subject\<close>: a page whose request fails, or answers with an error status, is
  skipped; an exception of \<open>parse_exam_links\<close> is not caught.
\<close>

fun harvest_pages ::
  "library \<Rightarrow> network \<Rightarrow> string \<Rightarrow> string \<Rightarrow> Path \<Rightarrow> ExamAsset list \<Rightarrow> string list
     \<Rightarrow> exc + ExamAsset list" where
  "harvest_pages L N code subj_label subj_folder assets [] = Inr assets"
| "harvest_pages L N code subj_label subj_folder assets (page_url # rest) =
     (case get_page N page_url of
        PageError \<Rightarrow> harvest_pages L N code subj_label subj_folder assets rest
      | PageResponse status_code anchors \<Rightarrow>
          if raises_for_status status_code then
            harvest_pages L N code subj_label subj_folder assets rest
          else
            (case parse_exam_links L anchors page_url code subj_label subj_folder of
               Inl e \<Rightarrow> Inl e
             | Inr new_assets \<Rightarrow>
                 harvest_pages L N code subj_label subj_folder (assets @ new_assets) rest))"

definition harvest_subject ::
  "library \<Rightarrow> network \<Rightarrow> string \<Rightarrow> string \<Rightarrow> Path \<Rightarrow> string list \<Rightarrow> exc + ExamAsset list" where
  "harvest_subject L N code subj_label subj_folder page_urls =
     harvest_pages L N code subj_label subj_folder [] page_urls"

text \<open>The first loop of \<open>main\<close>: harvest each subject and reconcile what it yields.\<close>

fun harvest_all ::
  "library \<Rightarrow> network \<Rightarrow> assets_by_key \<Rightarrow> (string \<times> subject_config) list \<Rightarrow> exc + assets_by_key" where
  "harvest_all L N m [] = Inr m"
| "harvest_all L N m ((code, config) # rest) =
     (case harvest_subject L N code (label config) (folder config) (pages config) of
        Inl e \<Rightarrow> Inl e
      | Inr subject_assets \<Rightarrow>
          (case reconcile L m subject_assets of
             Inl e \<Rightarrow> Inl e
           | Inr m' \<Rightarrow> harvest_all L N m' rest))"

section \<open>Fetch and validate\<close>

text \<open>
  What a run changes: the files of the storage tree, and the list of the URLs whose
  download was requested, in order.
\<close>

record world =
  files :: "Path \<rightharpoonup> string"
  downloads :: "string list"

text \<open>\<open>path.unlink(missing_ok=True)\<close>.\<close>

definition unlink :: "Path \<Rightarrow> world \<Rightarrow> world" where
  "unlink p w = w\<lparr>files := (files w)(p := None)\<rparr>"

text \<open>The handler of \<open>requests.RequestException\<close> in \<open>download_pdf\<close>.\<close>

definition request_failed :: "world \<Rightarrow> ExamAsset \<Rightarrow> bool \<times> world" where
  "request_failed w asset =
     (False, if files w (local_path asset) \<noteq> None then unlink (local_path asset) w else w)"

text \<open>
  The loop over \<open>iter_content\<close>: empty chunks are skipped, the first other chunk is kept
  in \<open>first_bytes\<close>, every chunk is written to the file.
\<close>

fun write_chunks :: "string option \<Rightarrow> string \<Rightarrow> string list \<Rightarrow> string option \<times> string" where
  "write_chunks first_bytes body [] = (first_bytes, body)"
| "write_chunks first_bytes body (chunk # rest) =
     (if chunk = [] then write_chunks first_bytes body rest
      else write_chunks (case first_bytes of None \<Rightarrow> Some chunk | Some b \<Rightarrow> Some b)
             (body @ chunk) rest)"

definition looks_like_pdf :: "string option \<Rightarrow> bool" where
  "looks_like_pdf first_bytes =
     (case first_bytes of
        None \<Rightarrow> False
      | Some b \<Rightarrow> prefix ''%PDF'' (lstrip_chars bytes_whitespace b))"

definition download_pdf :: "network \<Rightarrow> world \<Rightarrow> ExamAsset \<Rightarrow> bool \<times> world" where
  "download_pdf N w asset =
     (if files w (local_path asset) \<noteq> None then (True, w)
      else
        (let w0 = w\<lparr>downloads := downloads w @ [pdf_url asset]\<rparr> in
         case get_stream N (pdf_url asset) of
           GetError \<Rightarrow> request_failed w0 asset
         | GetResponse status_code chunks broken \<Rightarrow>
             if raises_for_status status_code then request_failed w0 asset
             else
               (case write_chunks None [] chunks of
                  (first_bytes, body) \<Rightarrow>
                    (let w1 = w0\<lparr>files := (files w0)(local_path asset \<mapsto> body)\<rparr> in
                     if broken then request_failed w1 asset
                     else if \<not> looks_like_pdf first_bytes then (False, unlink (local_path asset) w1)
                     else (True, w1)))))"

text \<open>The last loop of \<open>main\<close>: the manifest collects the assets whose download succeeded.\<close>

fun fetch_all :: "network \<Rightarrow> world \<Rightarrow> ExamAsset list \<Rightarrow> ExamAsset list \<times> world" where
  "fetch_all N w [] = ([], w)"
| "fetch_all N w (asset # rest) =
     (case download_pdf N w asset of
        (ok, w1) \<Rightarrow>
          (case fetch_all N w1 rest of
             (manifest, w2) \<Rightarrow> (if ok then asset # manifest else manifest, w2)))"

text \<open>
  The key of the sort of \<open>main\<close>: \<open>int(asset.year)\<close> is called when the year is not
  empty and \<open>isdigit\<close> holds of it, and its \<open>ValueError\<close> is not caught.
\<close>

definition sort_year :: "ExamAsset \<Rightarrow> exc + int" where
  "sort_year asset =
     (case year asset of
        None \<Rightarrow> Inr 0
      | Some y \<Rightarrow>
          if y \<noteq> [] \<and> isdigit y
          then (case py_int y of None \<Rightarrow> Inl ValueError | Some i \<Rightarrow> Inr i)
          else Inr 0)"

definition sort_tuple :: "ExamAsset \<Rightarrow> exc + (string \<times> int \<times> nat \<times> nat \<times> string)" where
  "sort_tuple asset =
     (case sort_year asset of
        Inl e \<Rightarrow> Inl e
      | Inr yr \<Rightarrow>
          Inr (subject_code asset,
               yr,
               get_default SESSION_ORDER (or_default (session asset) []) 99,
               get_default TYPE_ORDER (asset_type asset) 99,
               path_name (local_path asset)))"

text \<open>
  \<open>sorted(assets_by_key.values(), key=...)\<close>: the key of every candidate is computed
  first, in the order of the map, and an exception of a key ends the sort; the sort is
  stable.
\<close>

fun sort_keys ::
  "ExamAsset list \<Rightarrow> exc + ((string \<times> int \<times> nat \<times> nat \<times> string) \<times> ExamAsset) list" where
  "sort_keys [] = Inr []"
| "sort_keys (asset # rest) =
     (case sort_tuple asset of
        Inl e \<Rightarrow> Inl e
      | Inr k \<Rightarrow>
          (case sort_keys rest of
             Inl e \<Rightarrow> Inl e
           | Inr ks \<Rightarrow> Inr ((k, asset) # ks)))"

definition sorted_assets :: "assets_by_key \<Rightarrow> exc + ExamAsset list" where
  "sorted_assets m =
     (case sort_keys (map snd m) of
        Inl e \<Rightarrow> Inl e
      | Inr ks \<Rightarrow> Inr (map snd (sort_key fst ks)))"

text \<open>
  \<open>main\<close>: the reconciled map, the gaps filled, the downloads in sorted order. The result
  is the manifest handed to \<open>write_metadata\<close> and the world after the run, or the exception
  that ended the run.
\<close>

definition main :: "library \<Rightarrow> network \<Rightarrow> Path \<Rightarrow> world \<Rightarrow> exc + (ExamAsset list \<times> world)" where
  "main L N ROOT_DIR w =
     (case harvest_all L N [] (SUBJECT_SOURCES ROOT_DIR) of
        Inl e \<Rightarrow> Inl e
      | Inr m \<Rightarrow>
          (case sorted_assets (fill_gaps N m (gap_targets ROOT_DIR)) of
             Inl e \<Rightarrow> Inl e
           | Inr assets \<Rightarrow> Inr (fetch_all N w assets)))"

section \<open>An instance of the library\<close>

text \<open>
  An executable instance of \<^typ>\<open>library\<close>, for running the model on examples; the theorems
  below hold for every library. \<open>std_urlparse\<close> follows \<open>urlsplit\<close>: an optional scheme,
  the authority after \<open>//\<close> up to the first of \<open>/?#\<close>, \<open>ValueError\<close> when the authority
  has one of the brackets without the other, then fragment and query split off the path.
  \<open>std_urljoin\<close> is right for an absolute link, which \<open>urljoin\<close> returns as it is.
\<close>

definition scheme_char :: "char \<Rightarrow> bool" where
  "scheme_char c = (is_alnum c \<or> c \<in> set ''+-.'')"

definition split_scheme :: "string \<Rightarrow> string" where
  "split_scheme url =
     (let pre = takeWhile (\<lambda>c. c \<noteq> CHR '':'') url in
      case pre of
        [] \<Rightarrow> url
      | c # _ \<Rightarrow>
          if length pre < length url \<and> (is_upper c \<or> is_lower c) \<and> list_all scheme_char pre
          then drop (length pre + 1) url else url)"

definition std_urlparse :: "string \<Rightarrow> exc + ParseResult" where
  "std_urlparse url =
     (let rest = split_scheme url;
          has_authority = prefix ''//'' rest;
          loc = (if has_authority then takeWhile (\<lambda>c. c \<notin> set ''/?#'') (drop 2 rest) else []);
          tail = (if has_authority then dropWhile (\<lambda>c. c \<notin> set ''/?#'') (drop 2 rest) else rest);
          no_fragment = takeWhile (\<lambda>c. c \<noteq> CHR ''#'') tail
      in if (CHR ''['' \<in> set loc) \<noteq> (CHR '']'' \<in> set loc) then Inl ValueError
         else Inr \<lparr>netloc = loc,
                   path = takeWhile (\<lambda>c. c \<noteq> CHR ''?'') no_fragment,
                   query = drop 1 (dropWhile (\<lambda>c. c \<noteq> CHR ''?'') no_fragment)\<rparr>)"

definition std_urljoin :: "string \<Rightarrow> string \<Rightarrow> exc + string" where
  "std_urljoin base link = (case std_urlparse link of Inl e \<Rightarrow> Inl e | Inr _ \<Rightarrow> Inr link)"

definition hex_val :: "char \<Rightarrow> nat option" where
  "hex_val c =
     (if is_digit c then Some (of_char c - 48)
      else if CHR ''A'' \<le> c \<and> c \<le> CHR ''F'' then Some (of_char c - 55)
      else if CHR ''a'' \<le> c \<and> c \<le> CHR ''f'' then Some (of_char c - 87)
      else None)"

fun std_unquote :: "string \<Rightarrow> string" where
  "std_unquote (c # a # b # rest) =
     (case (c = CHR ''%'', hex_val a, hex_val b) of
        (True, Some x, Some y) \<Rightarrow> char_of (16 * x + y) # std_unquote rest
      | _ \<Rightarrow> c # std_unquote (a # b # rest))"
| "std_unquote cs = cs"

definition qs_field :: "string \<Rightarrow> (string \<times> string) option" where
  "qs_field field =
     (let name = takeWhile (\<lambda>c. c \<noteq> CHR ''='') field;
          val = drop 1 (dropWhile (\<lambda>c. c \<noteq> CHR ''='') field);
          plus = map (\<lambda>c. if c = CHR ''+'' then CHR '' '' else c)
      in if CHR ''='' \<notin> set field \<or> val = [] then None
         else Some (std_unquote (plus name), std_unquote (plus val)))"

definition std_parse_qs :: "string \<Rightarrow> (string \<times> string list) list" where
  "std_parse_qs qs =
     foldl (\<lambda>r field.
              case qs_field field of
                None \<Rightarrow> r
              | Some (name, val) \<Rightarrow> AList.update name (get_default r name [] @ [val]) r)
       [] (split_on (CHR ''&'') qs)"

definition std_library :: library where
  "std_library =
     \<lparr>urljoin = std_urljoin, urlparse = std_urlparse,
      parse_qs = std_parse_qs, unquote = std_unquote\<rparr>"

section \<open>Notions of the specification\<close>

text \<open>
  The pattern \<open>19xx\<close>/\<open>20xx\<close>: four characters, \<open>1\<close> and \<open>9\<close> or \<open>2\<close> and \<open>0\<close>, then
  two decimal digits. \<open>year_match t i y\<close>: the characters of the text \<open>t\<close> hold such a
  \<open>y\<close> from the position \<open>i\<close> on.
\<close>

definition year_pattern :: "string list \<Rightarrow> bool" where
  "year_pattern y =
     (length y = 4 \<and> (take 2 y = [''2'', ''0''] \<or> take 2 y = [''1'', ''9''])
      \<and> list_all decimal_char (drop 2 y))"

definition year_match :: "string \<Rightarrow> nat \<Rightarrow> string list \<Rightarrow> bool" where
  "year_match t i y = (year_pattern y \<and> prefix y (drop i (utf8_chars t)))"

text \<open>
  The tokens of digits of a text are its maximal blocks of decimal digits; the year
  tokens are those of four digits that have the pattern, and \<open>first_year_token\<close> is the
  text of the leftmost one.
\<close>

function blocks :: "('a \<Rightarrow> bool) \<Rightarrow> 'a list \<Rightarrow> 'a list list" where
  "blocks P xs =
     (let ys = dropWhile (\<lambda>x. \<not> P x) xs in
      if ys = [] then [] else takeWhile P ys # blocks P (dropWhile P ys))"
  by pat_completeness auto
termination
proof (relation "measure (\<lambda>(P, xs). length xs)", goal_cases)
  case 1
  show ?case by simp
next
  case (2 P xs ys)
  then have "ys \<noteq> []" and ys: "ys = dropWhile (\<lambda>x. \<not> P x) xs" by simp_all
  from \<open>ys \<noteq> []\<close> obtain z zs where zs: "ys = z # zs" by (cases ys) auto
  with ys have dw: "dropWhile (\<lambda>x. \<not> P x) xs = z # zs" by simp
  have "P z"
    using hd_dropWhile[of "\<lambda>x. \<not> P x" xs] unfolding dw by simp
  with zs have "length (dropWhile P ys) \<le> length zs"
    by (simp add: length_dropWhile_le)
  moreover have "length ys \<le> length xs" using ys by (simp add: length_dropWhile_le)
  ultimately show ?case using zs by simp
qed

declare blocks.simps [simp del]

definition year_tokens :: "string \<Rightarrow> string list list" where
  "year_tokens t = filter year_pattern (blocks decimal_char (utf8_chars t))"

definition first_year_token :: "string \<Rightarrow> string option" where
  "first_year_token t = (case year_tokens t of [] \<Rightarrow> None | y # _ \<Rightarrow> Some (concat y))"

text \<open>
  A text for the examples: \<open>Bac 20\<close>, the Arabic-Indic digits two and one (U+0662 and
  U+0661), then \<open>2019\<close>; \<open>arabic_year\<close> is the year that it starts with.
\<close>

definition arabic_year :: string where
  "arabic_year = ''20'' @ [CHR 0xD9, CHR 0xA2, CHR 0xD9, CHR 0xA1]"

definition arabic_year_text :: string where
  "arabic_year_text = ''Bac '' @ arabic_year @ '' 2019''"

text \<open>
  The alphanumeric runs of a text: its maximal blocks of characters of \<open>[A-Za-z0-9]\<close>,
  from left to right.
\<close>

function alnum_runs :: "string \<Rightarrow> string list" where
  "alnum_runs s =
     (let t = dropWhile (\<lambda>c. \<not> is_alnum c) s in
      if t = [] then [] else takeWhile is_alnum t # alnum_runs (dropWhile is_alnum t))"
  by pat_completeness auto
termination
proof (relation "measure length", goal_cases)
  case 1
  show ?case by simp
next
  case (2 s t)
  then have "t \<noteq> []" and t: "t = dropWhile (\<lambda>c. \<not> is_alnum c) s" by simp_all
  from \<open>t \<noteq> []\<close> obtain c cs where cs: "t = c # cs" by (cases t) auto
  with t have dw: "dropWhile (\<lambda>c. \<not> is_alnum c) s = c # cs" by simp
  have "is_alnum c"
    using hd_dropWhile[of "\<lambda>c. \<not> is_alnum c" s] unfolding dw by simp
  with cs have "length (dropWhile is_alnum t) \<le> length cs"
    by (simp add: length_dropWhile_le)
  moreover have "length t \<le> length s" using t by (simp add: length_dropWhile_le)
  ultimately show ?case using cs by simp
qed

declare alnum_runs.simps [simp del]

text \<open>
  The rank of the host of a candidate's resource URL, as \<open>prefer_asset\<close> computes it;
  \<open>None\<close> when \<open>urlparse\<close> rejects the URL.
\<close>

definition url_rank :: "library \<Rightarrow> ExamAsset \<Rightarrow> nat option" where
  "url_rank L a =
     (case urlparse L (pdf_url a) of
        Inl e \<Rightarrow> None
      | Inr parsed \<Rightarrow> Some (host_rank (lower (netloc parsed))))"

text \<open>
  A map is keyed when no key occurs twice in it and every candidate sits under its own
  canonical key.
\<close>

definition keyed :: "assets_by_key \<Rightarrow> bool" where
  "keyed m = (distinct (map fst m) \<and> list_all (\<lambda>e. asset_key (snd e) = Some (fst e)) m)"

text \<open>The values of the map are candidates whose URL the library parses.\<close>

definition parsed_values :: "library \<Rightarrow> assets_by_key \<Rightarrow> bool" where
  "parsed_values L m = list_all (\<lambda>e. url_rank L (snd e) \<noteq> None) m"

text \<open>The number of candidates of a map that have a given canonical key.\<close>

definition occupants :: "assets_by_key \<Rightarrow> canonical_key \<Rightarrow> nat" where
  "occupants m k = length (filter (\<lambda>e. fst e = k \<or> asset_key (snd e) = Some k) m)"

text \<open>The key that a step of the gap synthesis looks at, and the URL that it probes.\<close>

definition target_key :: "string \<times> subject_config \<times> int \<times> string \<times> string \<Rightarrow> canonical_key" where
  "target_key target =
     (case target of (code, config, yr, session_name, type_name) \<Rightarrow>
        (code, yr, session_name, type_name))"

definition fallback_url :: "canonical_key \<Rightarrow> string option" where
  "fallback_url key =
     (case key of (code, yr, session_name, type_name) \<Rightarrow>
        (case (map_of TELMID_PATTERNS code, map_of TYPE_LABELS type_name) of
           (Some pattern, Some type_label) \<Rightarrow>
             Some (telmid_url pattern yr
                     (get_default SESSION_LABELS session_name session_name) type_label)
         | _ \<Rightarrow> None))"

text \<open>What \<open>build_telmid_asset\<close> returns at a step of the gap synthesis.\<close>

definition synthesize ::
  "network \<Rightarrow> string \<times> subject_config \<times> int \<times> string \<times> string \<Rightarrow> ExamAsset option" where
  "synthesize N target =
     (case target of (code, config, yr, session_name, type_name) \<Rightarrow>
        build_telmid_asset N code (label config) (folder config) yr session_name type_name)"

text \<open>
  Networks for the examples: no page can be fetched, one URL answers the probe with 200,
  every download yields the given chunks and then ends, or breaks if the flag is set.
\<close>

definition probe_network :: "string \<Rightarrow> string list \<Rightarrow> bool \<Rightarrow> network" where
  "probe_network found chunks broken =
     \<lparr>get_page = (\<lambda>url. PageError),
      head = (\<lambda>url. if url = found then HeadResponse 200 else HeadResponse 404),
      get_stream = (\<lambda>url. GetResponse 200 chunks broken)\<rparr>"

text \<open>An anchor with a given link, for the examples.\<close>

definition sujet_anchor :: "string \<Rightarrow> anchor" where
  "sujet_anchor link = \<lparr>href = link, get_text = ''Sujet 2020 Normale''\<rparr>"

text \<open>
  A link to the download helper whose target is a URL with a bracket that is not closed.
\<close>

definition bad_link :: string where
  "bad_link = ''https://telmidtice.com/telecharger?url=http://[x''"

text \<open>A world in which the file of \<open>asset_at\<close> is stored already.\<close>

definition stored_world :: world where
  "stored_world =
     \<lparr>files = [[''Math'', ''Math_2021_Normale_MainExam.pdf''] \<mapsto> ''%PDF-1.4 stored''],
      downloads = []\<rparr>"

definition svt_2009_url :: string where
  "svt_2009_url = ''https://telmidtice.com/assets/2bac-pc/svt-fr/Examens Nationaux/TelmidTice%20-%20Examen%20National%20SVT%20Sciences%20Physiques%202009%20Rattrapage%20-%20Corrig%C3%A9.pdf''"

definition math_2008_url :: string where
  "math_2008_url = ''https://telmidtice.com/assets/2bac-pc/maths-fr/Examens Nationaux/TelmidTice%20-%20Examen%20National%20Maths%20Sciences%20et%20Technologies%202008%20Normale%20-%20Sujet.pdf''"

text \<open>A network on which every page answers 200 with the given anchors.\<close>

definition page_network :: "anchor list \<Rightarrow> network" where
  "page_network anchors =
     \<lparr>get_page = (\<lambda>url. PageResponse 200 anchors),
      head = (\<lambda>url. HeadError),
      get_stream = (\<lambda>url. GetError)\<rparr>"

definition empty_world :: world where
  "empty_world = \<lparr>files = Map.empty, downloads = []\<rparr>"

text \<open>The first chunk of a streamed body that is not empty.\<close>

definition first_chunk :: "string list \<Rightarrow> string option" where
  "first_chunk chunks = List.find (\<lambda>chunk. chunk \<noteq> []) chunks"

text \<open>Every candidate of the list already has its file.\<close>

definition populated :: "world \<Rightarrow> ExamAsset list \<Rightarrow> bool" where
  "populated w assets = list_all (\<lambda>a. files w (local_path a) \<noteq> None) assets"

text \<open>A candidate at a given URL, for the examples.\<close>

definition asset_at :: "string \<Rightarrow> ExamAsset" where
  "asset_at url =
     \<lparr>subject_code = ''Math'',
      subject_label = ''Math'',
      year = Some ''2021'',
      session = Some ''Normale'',
      asset_type = ''MainExam'',
      source_title = ''Sujet 2021 Normale'',
      source_page = ''https://example.org/'',
      pdf_url = url,
      local_path = [''Math'', ''Math_2021_Normale_MainExam.pdf'']\<rparr>"

section \<open>The classifiers\<close>


lemma year_pattern_cases:
  "year_pattern y \<longleftrightarrow>
     (\<exists>a b c d. y = [a, b, c, d] \<and> ((a = ''2'' \<and> b = ''0'') \<or> (a = ''1'' \<and> b = ''9''))
        \<and> decimal_char c \<and> decimal_char d)"
proof
  assume "year_pattern y"
  then have len: "length y = 4" by (simp add: year_pattern_def)
  then obtain a b c d where y: "y = [a, b, c, d]"
    by (auto simp: length_Suc_conv numeral_eq_Suc)
  with \<open>year_pattern y\<close> show "\<exists>a b c d. y = [a, b, c, d] \<and> ((a = ''2'' \<and> b = ''0'') \<or> (a = ''1'' \<and> b = ''9''))
        \<and> decimal_char c \<and> decimal_char d"
    by (auto simp: year_pattern_def)
next
  assume "\<exists>a b c d. y = [a, b, c, d] \<and> ((a = ''2'' \<and> b = ''0'') \<or> (a = ''1'' \<and> b = ''9''))
        \<and> decimal_char c \<and> decimal_char d"
  then show "year_pattern y" by (auto simp: year_pattern_def)
qed

lemma year_at_iff: "year_at xs = Some y \<longleftrightarrow> year_pattern y \<and> prefix y xs"
  by (cases xs rule: year_at.cases) (auto simp: year_pattern_cases)

lemma search_year_Some:
  "search_year xs = Some y \<Longrightarrow>
     \<exists>i. year_pattern y \<and> prefix y (drop i xs)
       \<and> (\<forall>j y'. year_pattern y' \<and> prefix y' (drop j xs) \<longrightarrow> i \<le> j)"
proof (induction xs)
  case Nil
  then show ?case by simp
next
  case (Cons c cs)
  show ?case
  proof (cases "year_at (c # cs)")
    case (Some z)
    with Cons.prems have "z = y" by simp
    with Some have "year_pattern y \<and> prefix y (drop 0 (c # cs))" by (simp add: year_at_iff)
    then show ?thesis by blast
  next
    case None
    with Cons.prems have "search_year cs = Some y" by simp
    from Cons.IH[OF this] obtain i where i: "year_pattern y" "prefix y (drop i cs)"
      and least: "\<forall>j y'. year_pattern y' \<and> prefix y' (drop j cs) \<longrightarrow> i \<le> j" by blast
    have "\<forall>j y'. year_pattern y' \<and> prefix y' (drop j (c # cs)) \<longrightarrow> Suc i \<le> j"
    proof (intro allI impI)
      fix j y' assume m: "year_pattern y' \<and> prefix y' (drop j (c # cs))"
      show "Suc i \<le> j"
      proof (cases j)
        case 0
        with m have "year_at (c # cs) = Some y'" by (simp add: year_at_iff)
        with None show ?thesis by simp
      next
        case (Suc j')
        with m have "year_pattern y' \<and> prefix y' (drop j' cs)" by simp
        with least have "i \<le> j'" by blast
        with Suc show ?thesis by simp
      qed
    qed
    moreover from i have "year_pattern y \<and> prefix y (drop (Suc i) (c # cs))" by simp
    ultimately show ?thesis by blast
  qed
qed

lemma search_year_None:
  "search_year xs = None \<Longrightarrow> \<not> (year_pattern y \<and> prefix y (drop j xs))"
proof (induction xs arbitrary: j)
  case Nil
  then show ?case by (auto simp: year_pattern_cases)
next
  case (Cons c cs)
  from Cons.prems have at: "year_at (c # cs) = None" and rest: "search_year cs = None"
    by (auto split: option.splits)
  show ?case
  proof (cases j)
    case 0
    from at have "\<not> (year_pattern y \<and> prefix y (c # cs))" by (simp add: year_at_iff[symmetric])
    with 0 show ?thesis by simp
  next
    case (Suc j')
    with Cons.IH[OF rest] show ?thesis by simp
  qed
qed

lemma identify_year_Some:
  "identify_year t = Some r \<Longrightarrow>
     \<exists>i y. r = concat y \<and> year_match t i y \<and> (\<forall>j y'. year_match t j y' \<longrightarrow> i \<le> j)"
proof -
  assume "identify_year t = Some r"
  then obtain y where y: "search_year (utf8_chars t) = Some y" and r: "r = concat y"
    by (auto simp: identify_year_def)
  from search_year_Some[OF y] r show ?thesis
    unfolding year_match_def by blast
qed

lemma identify_year_None: "identify_year t = None \<Longrightarrow> \<not> year_match t j y"
  using search_year_None[of "utf8_chars t" y j] by (simp add: identify_year_def year_match_def)

text \<open>
  Claim C7, amended. \<open>identify_year\<close> returns the leftmost occurrence of the pattern
  \<open>19xx\<close>/\<open>20xx\<close> in the text: the result is the text of four characters \<open>y\<close> that
  have the pattern and stand at a position before which no occurrence of the pattern
  starts, so a text with several years yields the first one; the result is absent exactly
  when the text holds no occurrence at all. An occurrence is any four consecutive
  characters of the text, \<open>1\<close> and \<open>9\<close> or \<open>2\<close> and \<open>0\<close> and then two decimal digits
  of any script, also inside a longer run of digits.
\<close>

theorem identify_year_leftmost:
  "(identify_year t = Some r \<longrightarrow>
      (\<exists>i y. r = concat y \<and> year_match t i y \<and> (\<forall>j y'. year_match t j y' \<longrightarrow> i \<le> j)))
   \<and> (identify_year t = None \<longrightarrow> (\<forall>j y'. \<not> year_match t j y'))"
  using identify_year_Some identify_year_None by blast

text \<open>
  The first result is before the second year of the text; a text without a year gives no
  result; the Arabic-Indic digits count as digits of a year.
\<close>

theorem identify_year_leftmost_witness:
  "identify_year ''Examen 2019-2020'' = Some ''2019''
   \<and> year_match ''Examen 2019-2020'' 12 [''2'', ''0'', ''2'', ''0'']
   \<and> (\<exists>i y. ''2019'' = concat y \<and> year_match ''Examen 2019-2020'' i y \<and> i \<le> 12)
   \<and> identify_year ''Examen national'' = None
   \<and> \<not> year_match ''Examen national'' 0 [''2'', ''0'', ''1'', ''9'']
   \<and> identify_year arabic_year_text = Some arabic_year"
proof -
  have s: "identify_year ''Examen 2019-2020'' = Some ''2019''" by code_simp
  have m: "year_match ''Examen 2019-2020'' 12 [''2'', ''0'', ''2'', ''0'']" by code_simp
  have n: "identify_year ''Examen national'' = None" by code_simp
  have a: "identify_year arabic_year_text = Some arabic_year" by code_simp
  from identify_year_leftmost[of "''Examen 2019-2020''" "''2019''"] s
  obtain i y where "''2019'' = concat y" "year_match ''Examen 2019-2020'' i y"
    and "\<forall>j y'. year_match ''Examen 2019-2020'' j y' \<longrightarrow> i \<le> j" by blast
  with m have "\<exists>i y. ''2019'' = concat y \<and> year_match ''Examen 2019-2020'' i y \<and> i \<le> 12"
    by blast
  moreover from identify_year_leftmost[of "''Examen national''"] n
  have "\<not> year_match ''Examen national'' 0 [''2'', ''0'', ''1'', ''9'']" by blast
  ultimately show ?thesis using s m n a by blast
qed

text \<open>
  Claim C7 as stated fails when a token is a maximal block of digits. \<open>120195\<close> is a
  token of six digits, so the first text has no 4-digit token and the second has the
  single 4-digit token \<open>2021\<close>, yet \<open>identify_year\<close> returns \<open>2019\<close> for both, from
  inside the longer number.
\<close>

theorem year_inside_longer_number:
  "first_year_token ''Lot 120195'' = None
   \<and> identify_year ''Lot 120195'' = Some ''2019''
   \<and> first_year_token ''Lot 120195 de 2021'' = Some ''2021''
   \<and> identify_year ''Lot 120195 de 2021'' = Some ''2019''"
  by code_simp

text \<open>
  Claim C6. On the lowered text, the keyword \<open>corrig\<close> decides for \<open>Correction\<close>
  whether or not \<open>sujet\<close> or \<open>examen\<close> occurs as well; without it, \<open>sujet\<close> or
  \<open>examen\<close> gives \<open>MainExam\<close>; with none of the three the result is absent.
\<close>

theorem identify_asset_type_priority:
  "(sublist ''corrig'' (lower t) \<longrightarrow> identify_asset_type t = Some ''Correction'')
   \<and> (\<not> sublist ''corrig'' (lower t) \<and> (sublist ''sujet'' (lower t) \<or> sublist ''examen'' (lower t))
        \<longrightarrow> identify_asset_type t = Some ''MainExam'')
   \<and> (\<not> sublist ''corrig'' (lower t) \<and> \<not> sublist ''sujet'' (lower t) \<and> \<not> sublist ''examen'' (lower t)
        \<longrightarrow> identify_asset_type t = None)"
  by (simp add: identify_asset_type_def)

theorem identify_asset_type_priority_witness:
  "sublist ''corrig'' (lower ''Examen 2021 + CORRIGE'')
   \<and> sublist ''examen'' (lower ''Examen 2021 + CORRIGE'')
   \<and> identify_asset_type ''Examen 2021 + CORRIGE'' = Some ''Correction''
   \<and> identify_asset_type ''Sujet 2021'' = Some ''MainExam''
   \<and> identify_asset_type ''Programme 2021'' = None"
proof -
  have c: "sublist ''corrig'' (lower ''Examen 2021 + CORRIGE'')" by code_simp
  have e: "sublist ''examen'' (lower ''Examen 2021 + CORRIGE'')" by code_simp
  have s: "\<not> sublist ''corrig'' (lower ''Sujet 2021'') \<and> sublist ''sujet'' (lower ''Sujet 2021'')"
    by code_simp
  have p: "\<not> sublist ''corrig'' (lower ''Programme 2021'') \<and> \<not> sublist ''sujet'' (lower ''Programme 2021'')
     \<and> \<not> sublist ''examen'' (lower ''Programme 2021'')"
    by code_simp
  from c identify_asset_type_priority[of "''Examen 2021 + CORRIGE''"]
  have 1: "identify_asset_type ''Examen 2021 + CORRIGE'' = Some ''Correction''" by blast
  from s identify_asset_type_priority[of "''Sujet 2021''"]
  have 2: "identify_asset_type ''Sujet 2021'' = Some ''MainExam''" by blast
  from p identify_asset_type_priority[of "''Programme 2021''"]
  have 3: "identify_asset_type ''Programme 2021'' = None" by blast
  from c e 1 2 3 show ?thesis by blast
qed

section \<open>Host ranks\<close>

lemma host_rank_loop_first:
  "i < length ds \<Longrightarrow> suffix (ds ! i) h \<Longrightarrow> \<forall>j<i. \<not> suffix (ds ! j) h
     \<Longrightarrow> host_rank_loop (enumerate n ds) h = n + i"
proof (induction ds arbitrary: n i)
  case Nil
  then show ?case by simp
next
  case (Cons d ds)
  show ?case
  proof (cases i)
    case 0
    with Cons.prems show ?thesis by simp
  next
    case (Suc i')
    with Cons.prems have "\<not> suffix d h" by auto
    moreover from Suc Cons.prems have "host_rank_loop (enumerate (Suc n) ds) h = Suc n + i'"
      by (intro Cons.IH) auto
    ultimately show ?thesis using Suc by simp
  qed
qed

lemma host_rank_loop_none:
  "\<forall>d\<in>set ds. \<not> suffix d h \<Longrightarrow> host_rank_loop (enumerate n ds) h = length PREFERRED_DOMAINS"
  by (induction ds arbitrary: n) auto

text \<open>
  Claim C9. The rank of a host is the index of the first preferred domain that the host
  string ends with, whatever precedes it in the host (a subdomain or an unrelated name),
  and the length of the list when it ends with none; \<open>prefer_asset\<close> compares the ranks
  of the lowered hosts of the two resource URLs, strictly.
\<close>

theorem host_rank_suffix:
  "(\<forall>i. i < length PREFERRED_DOMAINS \<and> suffix (PREFERRED_DOMAINS ! i) host
          \<and> (\<forall>j<i. \<not> suffix (PREFERRED_DOMAINS ! j) host) \<longrightarrow> host_rank host = i)
   \<and> ((\<forall>d\<in>set PREFERRED_DOMAINS. \<not> suffix d host) \<longrightarrow> host_rank host = length PREFERRED_DOMAINS)
   \<and> (urlparse L (pdf_url candidate) = Inr pc \<and> urlparse L (pdf_url current) = Inr pcur \<longrightarrow>
        prefer_asset L candidate current
          = Inr (host_rank (lower (netloc pc)) < host_rank (lower (netloc pcur))))"
  using host_rank_loop_first[of _ PREFERRED_DOMAINS host 0]
        host_rank_loop_none[of PREFERRED_DOMAINS host 0]
  by (auto simp: host_rank_def prefer_asset_def)

theorem host_rank_suffix_witness:
  "suffix (PREFERRED_DOMAINS ! 0) ''nottelmidtice.com''
   \<and> host_rank ''nottelmidtice.com'' = 0
   \<and> host_rank ''example.org'' = length PREFERRED_DOMAINS
   \<and> prefer_asset std_library (asset_at ''https://NotTelmidTice.com/a.pdf'')
        (asset_at ''https://www.men.gov.ma/b.pdf'') = Inr True"
proof -
  have s0: "0 < length PREFERRED_DOMAINS \<and> suffix (PREFERRED_DOMAINS ! 0) ''nottelmidtice.com''
      \<and> (\<forall>j<(0::nat). \<not> suffix (PREFERRED_DOMAINS ! j) ''nottelmidtice.com'')"
    by (simp add: PREFERRED_DOMAINS_def suffix_to_prefix)
  have none: "\<forall>d\<in>set PREFERRED_DOMAINS. \<not> suffix d ''example.org''"
    by (simp add: PREFERRED_DOMAINS_def suffix_to_prefix)
  have pc: "urlparse std_library (pdf_url (asset_at ''https://NotTelmidTice.com/a.pdf''))
      = Inr \<lparr>netloc = ''NotTelmidTice.com'', path = ''/a.pdf'', query = []\<rparr>"
    by code_simp
  have pcur: "urlparse std_library (pdf_url (asset_at ''https://www.men.gov.ma/b.pdf''))
      = Inr \<lparr>netloc = ''www.men.gov.ma'', path = ''/b.pdf'', query = []\<rparr>"
    by code_simp
  have lo: "lower ''NotTelmidTice.com'' = ''nottelmidtice.com''"
    "lower ''www.men.gov.ma'' = ''www.men.gov.ma''"
    by code_simp+
  have r1: "host_rank ''www.men.gov.ma'' = 1"
    by code_simp
  from host_rank_suffix[of "''nottelmidtice.com''"] s0
  have r0: "host_rank ''nottelmidtice.com'' = 0" by blast
  from host_rank_suffix[of "''example.org''"] none
  have r4: "host_rank ''example.org'' = length PREFERRED_DOMAINS" by blast
  from host_rank_suffix[of "''x''" std_library "asset_at ''https://NotTelmidTice.com/a.pdf''" _
      "asset_at ''https://www.men.gov.ma/b.pdf''" _] pc pcur
  have "prefer_asset std_library (asset_at ''https://NotTelmidTice.com/a.pdf'')
        (asset_at ''https://www.men.gov.ma/b.pdf'')
      = Inr (host_rank (lower ''NotTelmidTice.com'') < host_rank (lower ''www.men.gov.ma''))"
    by simp
  with lo r0 r1 have "prefer_asset std_library (asset_at ''https://NotTelmidTice.com/a.pdf'')
        (asset_at ''https://www.men.gov.ma/b.pdf'') = Inr True"
    by simp
  with s0 r0 r4 show ?thesis by blast
qed

section \<open>File names are well formed\<close>

lemma alnum_runs_Nil:
  "dropWhile (\<lambda>c. \<not> is_alnum c) s = [] \<Longrightarrow> alnum_runs s = []"
  by (subst alnum_runs.simps) (simp add: Let_def)

lemma alnum_runs_Cons:
  "dropWhile (\<lambda>c. \<not> is_alnum c) s \<noteq> [] \<Longrightarrow>
     alnum_runs s = takeWhile is_alnum (dropWhile (\<lambda>c. \<not> is_alnum c) s)
                      # alnum_runs (dropWhile is_alnum (dropWhile (\<lambda>c. \<not> is_alnum c) s))"
  by (subst alnum_runs.simps) (simp add: Let_def)

lemma re_sub_skip:
  "\<not> is_alnum c \<Longrightarrow> re_sub_non_alnum (c # cs)
     = CHR ''_'' # re_sub_non_alnum (dropWhile (\<lambda>x. \<not> is_alnum x) (c # cs))"
  by simp

lemma re_sub_run:
  "re_sub_non_alnum t = takeWhile is_alnum t @ re_sub_non_alnum (dropWhile is_alnum t)"
  by (induction t) auto

lemma rstrip_append:
  "rstrip_chars cs (x @ y)
     = (if rstrip_chars cs y = [] then rstrip_chars cs x else x @ rstrip_chars cs y)"
  by (auto simp: rstrip_chars_def dropWhile_append dropWhile_eq_Nil_conv)

lemma rstrip_Cons:
  "rstrip_chars cs (c # y)
     = (if rstrip_chars cs y = [] then (if c \<in> set cs then [] else [c])
        else c # rstrip_chars cs y)"
  using rstrip_append[of cs "[c]" y] by (simp add: rstrip_chars_def)

lemma rstrip_keep:
  "s \<noteq> [] \<Longrightarrow> last s \<notin> set cs \<Longrightarrow> rstrip_chars cs s = s"
  by (cases s rule: rev_cases) (auto simp: rstrip_chars_def)

lemma lstrip_keep:
  "s = [] \<or> hd s \<notin> set cs \<Longrightarrow> lstrip_chars cs s = s"
  by (cases s) (auto simp: lstrip_chars_def)

lemma not_alnum_underscore [simp]: "\<not> is_alnum (CHR ''_'')"
  by (simp add: is_alnum_def is_upper_def is_lower_def is_digit_def)

lemma alnum_runs_elems:
  "r \<in> set (alnum_runs s) \<Longrightarrow> r \<noteq> [] \<and> (\<forall>c\<in>set r. is_alnum c)"
proof (induction s rule: alnum_runs.induct)
  case (1 s)
  define t where "t = dropWhile (\<lambda>c. \<not> is_alnum c) s"
  show ?case
  proof (cases "t = []")
    case True
    then have "alnum_runs s = []" unfolding t_def by (rule alnum_runs_Nil)
    with 1(2) show ?thesis by simp
  next
    case False
    then have "is_alnum (hd t)"
      using hd_dropWhile[of "\<lambda>c. \<not> is_alnum c" s] by (simp add: t_def)
    with False have ne: "takeWhile is_alnum t \<noteq> []" by (cases t) auto
    from False have "alnum_runs s = takeWhile is_alnum t # alnum_runs (dropWhile is_alnum t)"
      unfolding t_def by (rule alnum_runs_Cons)
    with 1(2) have "r = takeWhile is_alnum t \<or> r \<in> set (alnum_runs (dropWhile is_alnum t))"
      by simp
    then show ?thesis
    proof
      assume "r = takeWhile is_alnum t"
      with ne show ?thesis by (auto dest: set_takeWhileD)
    next
      assume "r \<in> set (alnum_runs (dropWhile is_alnum t))"
      with 1(1)[OF t_def False] show ?thesis by simp
    qed
  qed
qed

lemma join_Cons: "join sep (p # ps) = (if ps = [] then p else p @ sep @ join sep ps)"
  by (cases ps) auto

lemma join_eq_Nil: "\<forall>p\<in>set ps. p \<noteq> [] \<Longrightarrow> join sep ps = [] \<longleftrightarrow> ps = []"
  by (cases ps) (auto simp: join_Cons)

lemma join_append:
  "join sep (xs @ ys)
     = (if xs = [] then join sep ys else if ys = [] then join sep xs
        else join sep xs @ sep @ join sep ys)"
  by (induction xs) (auto simp: join_Cons)

lemma join_chars:
  "c \<in> set (join sep ps) \<Longrightarrow> c \<in> set sep \<or> (\<exists>p\<in>set ps. c \<in> set p)"
  by (induction ps) (auto simp: join_Cons split: if_splits)

lemma re_sub_drop_runs:
  "rstrip_chars ''_'' (re_sub_non_alnum (dropWhile (\<lambda>c. \<not> is_alnum c) s)) = join ''_'' (alnum_runs s)"
proof (induction s rule: alnum_runs.induct)
  case (1 s)
  define t where "t = dropWhile (\<lambda>c. \<not> is_alnum c) s"
  show ?case
  proof (cases "t = []")
    case True
    then have "alnum_runs s = []" unfolding t_def by (rule alnum_runs_Nil)
    with True show ?thesis by (simp add: t_def[symmetric] rstrip_chars_def)
  next
    case False
    define r where "r = takeWhile is_alnum t"
    define u where "u = dropWhile is_alnum t"
    have runs: "alnum_runs s = r # alnum_runs u"
      using False unfolding r_def u_def t_def by (rule alnum_runs_Cons)
    have IH: "rstrip_chars ''_'' (re_sub_non_alnum (dropWhile (\<lambda>c. \<not> is_alnum c) u)) = join ''_'' (alnum_runs u)"
      using 1[OF t_def False] by (simp add: u_def)
    from False have "is_alnum (hd t)"
      using hd_dropWhile[of "\<lambda>c. \<not> is_alnum c" s] by (simp add: t_def)
    with False have rne: "r \<noteq> []" by (cases t) (auto simp: r_def)
    have ral: "\<forall>c\<in>set r. is_alnum c" by (auto simp: r_def dest: set_takeWhileD)
    with rne have "is_alnum (last r)" by simp
    then have "last r \<noteq> CHR ''_''" by (metis not_alnum_underscore)
    with rne have keep: "rstrip_chars ''_'' r = r" by (simp add: rstrip_keep)
    have split: "re_sub_non_alnum t = r @ re_sub_non_alnum u"
      unfolding r_def u_def by (rule re_sub_run)
    have elems: "\<forall>x\<in>set (alnum_runs u). x \<noteq> [] \<and> (\<forall>c\<in>set x. is_alnum c)"
      using alnum_runs_elems by blast
    show ?thesis
    proof (cases u)
      case Nil
      then have "alnum_runs u = []" by (simp add: alnum_runs_Nil)
      with Nil split keep runs show ?thesis by (simp add: t_def[symmetric])
    next
      case (Cons c cs)
      then have "\<not> is_alnum c"
        using hd_dropWhile[of is_alnum t] by (auto simp: u_def)
      with Cons have ru: "re_sub_non_alnum u
          = ''_'' @ re_sub_non_alnum (dropWhile (\<lambda>x. \<not> is_alnum x) u)"
        using re_sub_skip[of c cs] by simp
      define v where "v = re_sub_non_alnum (dropWhile (\<lambda>x. \<not> is_alnum x) u)"
      have whole: "re_sub_non_alnum t = r @ ''_'' @ v"
        using split ru by (simp add: v_def)
      show ?thesis
      proof (cases "alnum_runs u = []")
        case True
        with IH have "rstrip_chars ''_'' v = []" by (simp add: v_def)
        then have "rstrip_chars ''_'' (''_'' @ v) = []"
          by (simp add: rstrip_Cons)
        then have "rstrip_chars ''_'' (r @ ''_'' @ v) = r"
          using keep by (simp add: rstrip_append[of _ r])
        with whole True runs show ?thesis by (simp add: t_def[symmetric])
      next
        case False
        with elems have ne: "join ''_'' (alnum_runs u) \<noteq> []" by (simp add: join_eq_Nil)
        with IH have vne: "rstrip_chars ''_'' v \<noteq> []" by (simp add: v_def)
        then have "rstrip_chars ''_'' (''_'' @ v) = ''_'' @ rstrip_chars ''_'' v"
          by (simp add: rstrip_Cons)
        with vne have "rstrip_chars ''_'' (r @ ''_'' @ v) = r @ ''_'' @ rstrip_chars ''_'' v"
          by (simp add: rstrip_append[of _ r])
        with whole IH runs False show ?thesis
          by (simp add: t_def[symmetric] v_def join_Cons)
      qed
    qed
  qed
qed

lemma lstrip_re_sub:
  "lstrip_chars ''_'' (re_sub_non_alnum s) = re_sub_non_alnum (dropWhile (\<lambda>c. \<not> is_alnum c) s)"
proof -
  define t where "t = dropWhile (\<lambda>c. \<not> is_alnum c) s"
  have start: "re_sub_non_alnum t = [] \<or> hd (re_sub_non_alnum t) \<notin> set ''_''"
  proof (cases t)
    case Nil
    then show ?thesis by simp
  next
    case (Cons c cs)
    then have "is_alnum c" using hd_dropWhile[of "\<lambda>c. \<not> is_alnum c" s] by (auto simp: t_def)
    with Cons show ?thesis by auto
  qed
  show ?thesis
  proof (cases s)
    case Nil
    then show ?thesis by (simp add: lstrip_chars_def)
  next
    case (Cons c cs)
    show ?thesis
    proof (cases "is_alnum c")
      case True
      with Cons have "t = s" by (simp add: t_def)
      with start show ?thesis by (simp add: lstrip_keep t_def)
    next
      case False
      with Cons have "re_sub_non_alnum s = CHR ''_'' # re_sub_non_alnum t"
        by (simp add: t_def)
      then have "lstrip_chars ''_'' (re_sub_non_alnum s) = lstrip_chars ''_'' (re_sub_non_alnum t)"
        by (simp add: lstrip_chars_def)
      with start show ?thesis by (simp add: lstrip_keep t_def)
    qed
  qed
qed

lemma clean_part_runs: "clean_part p = join ''_'' (alnum_runs p)"
  by (simp add: clean_part_def strip_chars_def lstrip_re_sub re_sub_drop_runs)

lemma join_filter_concat:
  "\<forall>xs\<in>set xss. \<forall>x\<in>set xs. x \<noteq> [] \<Longrightarrow>
     join sep (filter (\<lambda>p. p \<noteq> []) (map (join sep) xss)) = join sep (concat xss)
     \<and> (filter (\<lambda>p. p \<noteq> []) (map (join sep) xss) = [] \<longleftrightarrow> concat xss = [])"
proof (induction xss)
  case Nil
  then show ?case by simp
next
  case (Cons xs xss)
  then have IH: "join sep (filter (\<lambda>p. p \<noteq> []) (map (join sep) xss)) = join sep (concat xss)"
    "filter (\<lambda>p. p \<noteq> []) (map (join sep) xss) = [] \<longleftrightarrow> concat xss = []"
    by auto
  from Cons.prems have "join sep xs = [] \<longleftrightarrow> xs = []" by (simp add: join_eq_Nil)
  with IH show ?case by (auto simp: join_append join_Cons)
qed

lemma sanitize_filename_runs:
  "sanitize_filename parts sfx =
     (if concat (map alnum_runs parts) = [] then ''document''
      else join ''_'' (concat (map alnum_runs parts))) @ sfx"
proof -
  define xss where "xss = map alnum_runs parts"
  have ne: "\<forall>xs\<in>set xss. \<forall>x\<in>set xs. x \<noteq> []"
    using alnum_runs_elems by (auto simp: xss_def)
  have cp: "map clean_part parts = map (join ''_'') xss"
    by (simp add: xss_def clean_part_runs)
  define F where "F = filter (\<lambda>p. p \<noteq> []) (map (join ''_'') xss)"
  define C where "C = concat xss"
  from join_filter_concat[OF ne, of "''_''"]
  have J: "join ''_'' F = join ''_'' C" "F = [] \<longleftrightarrow> C = []"
    unfolding F_def C_def by blast+
  have "sanitize_filename parts sfx = (if F \<noteq> [] then join ''_'' F else ''document'') @ sfx"
    unfolding sanitize_filename_def Let_def cp F_def ..
  also have "\<dots> = (if C = [] then ''document'' else join ''_'' C) @ sfx"
    using J by simp
  finally show ?thesis unfolding C_def xss_def .
qed

text \<open>
  Claim C10. With the suffix \<open>.pdf\<close>, the file name is the alphanumeric runs of the
  parts, in order, joined by underscores and followed by \<open>.pdf\<close>; it is not empty, every
  character of it is a letter, a digit, an underscore or a dot; and it is
  \<open>document.pdf\<close> when no part holds an alphanumeric character.
\<close>

theorem sanitize_filename_shape:
  "sanitize_filename parts ''.pdf'' =
     (if concat (map alnum_runs parts) = [] then ''document''
      else join ''_'' (concat (map alnum_runs parts))) @ ''.pdf''
   \<and> sanitize_filename parts ''.pdf'' \<noteq> []
   \<and> (\<forall>c\<in>set (sanitize_filename parts ''.pdf''). is_alnum c \<or> c = CHR ''_'' \<or> c = CHR ''.'')
   \<and> ((\<forall>p\<in>set parts. \<forall>c\<in>set p. \<not> is_alnum c) \<longrightarrow> sanitize_filename parts ''.pdf'' = ''document.pdf'')"
proof (intro conjI)
  define runs where "runs = concat (map alnum_runs parts)"
  have shape: "sanitize_filename parts ''.pdf''
      = (if runs = [] then ''document'' else join ''_'' runs) @ ''.pdf''"
    unfolding runs_def by (rule sanitize_filename_runs)
  show "sanitize_filename parts ''.pdf'' =
     (if concat (map alnum_runs parts) = [] then ''document''
      else join ''_'' (concat (map alnum_runs parts))) @ ''.pdf''"
    by (rule sanitize_filename_runs)
  show "sanitize_filename parts ''.pdf'' \<noteq> []"
    by (simp add: shape)
  show "\<forall>c\<in>set (sanitize_filename parts ''.pdf''). is_alnum c \<or> c = CHR ''_'' \<or> c = CHR ''.''"
  proof
    fix c assume c: "c \<in> set (sanitize_filename parts ''.pdf'')"
    have lit: "\<forall>x\<in>set ''document.pdf''. is_alnum x \<or> x = CHR ''.''"
      by (simp add: is_alnum_def is_upper_def is_lower_def is_digit_def)
    have elems: "\<forall>r\<in>set runs. \<forall>x\<in>set r. is_alnum x"
      using alnum_runs_elems by (auto simp: runs_def)
    show "is_alnum c \<or> c = CHR ''_'' \<or> c = CHR ''.''"
    proof (cases "runs = []")
      case True
      with c shape have "c \<in> set ''document.pdf''" by simp
      with lit show ?thesis by blast
    next
      case False
      with c shape have "c \<in> set (join ''_'' runs) \<or> c \<in> set ''.pdf''" by auto
      then show ?thesis
      proof
        assume "c \<in> set (join ''_'' runs)"
        from join_chars[OF this] elems show ?thesis by auto
      next
        assume "c \<in> set ''.pdf''"
        with lit show ?thesis by auto
      qed
    qed
  qed
  show "(\<forall>p\<in>set parts. \<forall>c\<in>set p. \<not> is_alnum c) \<longrightarrow> sanitize_filename parts ''.pdf'' = ''document.pdf''"
  proof
    assume none: "\<forall>p\<in>set parts. \<forall>c\<in>set p. \<not> is_alnum c"
    have "alnum_runs p = []" if "p \<in> set parts" for p
    proof -
      from that none have "dropWhile (\<lambda>c. \<not> is_alnum c) p = []" by simp
      then show ?thesis by (rule alnum_runs_Nil)
    qed
    then have "runs = []" by (simp add: runs_def)
    with shape show "sanitize_filename parts ''.pdf'' = ''document.pdf''"
      by simp
  qed
qed

theorem sanitize_filename_shape_witness:
  "list_all (list_all (\<lambda>c. \<not> is_alnum c)) [''--'', [], '' _ '']
   \<and> sanitize_filename [''--'', [], '' _ ''] ''.pdf'' = ''document.pdf''
   \<and> sanitize_filename [''Math'', ''unknown_year'', ''Rattrapage'', ''Correction''] ''.pdf''
       = ''Math_unknown_year_Rattrapage_Correction.pdf''"
proof -
  have none: "\<forall>p\<in>set [''--'', [], '' _ '']. \<forall>c\<in>set p. \<not> is_alnum c"
    by (simp add: is_alnum_def is_upper_def is_lower_def is_digit_def)
  with sanitize_filename_shape[of "[''--'', [], '' _ '']"]
  have d: "sanitize_filename [''--'', [], '' _ ''] ''.pdf'' = ''document.pdf''"
    by blast
  have "sanitize_filename [''Math'', ''unknown_year'', ''Rattrapage'', ''Correction''] ''.pdf''
       = ''Math_unknown_year_Rattrapage_Correction.pdf''"
    by code_simp
  moreover have "list_all (list_all (\<lambda>c. \<not> is_alnum c)) [''--'', [], '' _ '']"
    using none by (simp add: list_all_iff)
  ultimately show ?thesis using d by blast
qed


section \<open>Printing and reading an integer\<close>

declare nat_digits.simps [simp del]

lemma digit_chars:
  "list_all (\<lambda>n. char_decimal [digit_char n] = Some (int n) \<and> \<not> int_space_char [digit_char n]
     \<and> \<not> is_cont (digit_char n) \<and> digit_char n \<noteq> CHR ''-'' \<and> digit_char n \<noteq> CHR ''+'') [0..<10]"
  by code_simp

lemma digit_char_props:
  "n < 10 \<Longrightarrow> char_decimal [digit_char n] = Some (int n) \<and> \<not> int_space_char [digit_char n]
     \<and> \<not> is_cont (digit_char n) \<and> digit_char n \<noteq> CHR ''-'' \<and> digit_char n \<noteq> CHR ''+''"
  using digit_chars by (simp add: list_all_iff)

lemma nat_digits_digits:
  "nat_digits n \<noteq> [] \<and> (\<forall>c \<in> set (nat_digits n). \<exists>k < 10. c = digit_char k)"
proof (induction n rule: nat_digits.induct)
  case (1 n)
  show ?case
  proof (cases "n < 10")
    case True
    then show ?thesis by (auto simp: nat_digits.simps[of n])
  next
    case False
    with 1 have "\<forall>c \<in> set (nat_digits (n div 10)). \<exists>k < 10. c = digit_char k" by simp
    moreover have "\<exists>k < 10. digit_char (n mod 10) = digit_char k"
      by (rule exI[of _ "n mod 10"]) simp
    ultimately show ?thesis using False
      by (auto simp: nat_digits.simps[of n])
  qed
qed

lemma utf8_chars_ascii:
  "\<forall>c \<in> set s. \<not> is_cont c \<Longrightarrow> utf8_chars s = map (\<lambda>c. [c]) s"
proof (induction s)
  case Nil
  then show ?case by simp
next
  case (Cons b bs)
  then show ?case by (cases bs) auto
qed

lemma strip_list_keep:
  "xs \<noteq> [] \<Longrightarrow> \<not> P (hd xs) \<Longrightarrow> \<not> P (last xs) \<Longrightarrow> strip_list P xs = xs"
proof -
  assume ne: "xs \<noteq> []" and h: "\<not> P (hd xs)" and l: "\<not> P (last xs)"
  from ne h have 1: "dropWhile P xs = xs" by (cases xs) auto
  from ne l have "\<not> P (hd (rev xs))" by (simp add: hd_rev)
  with ne have 2: "dropWhile P (rev xs) = rev xs" by (cases "rev xs") auto
  show ?thesis by (simp add: strip_list_def 1 2)
qed

lemma int_digits_snoc:
  "\<forall>c \<in> set xs. char_decimal c \<noteq> None \<Longrightarrow> char_decimal d = Some v \<Longrightarrow>
     int_digits acc (xs @ [d]) = map_option (\<lambda>a. 10 * a + v) (int_digits acc xs)"
  by (induction xs arbitrary: acc) auto

lemma int_digits_nat_digits: "int_digits 0 (map (\<lambda>c. [c]) (nat_digits n)) = Some (int n)"
proof (induction n rule: nat_digits.induct)
  case (1 n)
  show ?case
  proof (cases "n < 10")
    case True
    then show ?thesis using digit_char_props[of n] by (simp add: nat_digits.simps[of n])
  next
    case False
    have d: "char_decimal [digit_char (n mod 10)] = Some (int (n mod 10))"
      using digit_char_props[of "n mod 10"] by simp
    have all: "\<forall>c \<in> set (map (\<lambda>c. [c]) (nat_digits (n div 10))). char_decimal c \<noteq> None"
      using nat_digits_digits[of "n div 10"] digit_char_props by auto
    from False 1
    have "int_digits 0 (map (\<lambda>c. [c]) (nat_digits (n div 10))) = Some (int (n div 10))" by simp
    moreover have "10 * int (n div 10) + int (n mod 10) = int n"
      by presburger
    ultimately show ?thesis using False
      by (simp add: nat_digits.simps[of n] int_digits_snoc[OF all d])
  qed
qed

lemma py_int_py_str: "0 \<le> i \<Longrightarrow> py_int (py_str i) = Some i"
proof -
  assume nonneg: "0 \<le> i"
  define ds where "ds = nat_digits (nat i)"
  have ne: "ds \<noteq> []" and all: "\<forall>c \<in> set ds. \<exists>k < 10. c = digit_char k"
    using nat_digits_digits[of "nat i"] by (simp_all add: ds_def)
  have props: "\<forall>c \<in> set ds. char_decimal [c] \<noteq> None \<and> \<not> int_space_char [c] \<and> \<not> is_cont c
      \<and> c \<noteq> CHR ''-'' \<and> c \<noteq> CHR ''+''"
  proof
    fix c assume "c \<in> set ds"
    with all obtain k where "k < 10" "c = digit_char k" by blast
    with digit_char_props[of k] show "char_decimal [c] \<noteq> None \<and> \<not> int_space_char [c]
      \<and> \<not> is_cont c \<and> c \<noteq> CHR ''-'' \<and> c \<noteq> CHR ''+''" by simp
  qed
  then have chars: "utf8_chars ds = map (\<lambda>c. [c]) ds" by (simp add: utf8_chars_ascii)
  define xs where "xs = map (\<lambda>c. [c]) ds"
  from ne obtain c cs where ccs: "ds = c # cs" by (cases ds) auto
  from ne have xne: "xs \<noteq> []" by (simp add: xs_def)
  from ne have "hd xs = [hd ds]" "last xs = [last ds]"
    by (simp_all add: xs_def hd_map last_map)
  moreover from ne have "hd ds \<in> set ds" "last ds \<in> set ds" by simp_all
  ultimately have "\<not> int_space_char (hd xs)" "\<not> int_space_char (last xs)"
    using props by auto
  with xne have strip: "strip_list int_space_char xs = xs" by (rule strip_list_keep)
  from ccs have x: "xs = [c] # map (\<lambda>c. [c]) cs" by (simp add: xs_def)
  from props ccs have c: "decimal_char [c]" "c \<noteq> CHR ''-''" "c \<noteq> CHR ''+''"
    by (simp_all add: decimal_char_def)
  have "py_int ds = int_digits 0 xs"
    unfolding py_int_def chars xs_def[symmetric] strip
    using c by (simp add: x int_literal_def)
  with nonneg show ?thesis
    by (simp add: py_str_def ds_def xs_def int_digits_nat_digits)
qed

section \<open>Reconciliation keeps one candidate per key\<close>

lemma prefer_asset_rank:
  "prefer_asset L c e =
     (case url_rank L c of
        None \<Rightarrow> Inl ValueError
      | Some rc \<Rightarrow> (case url_rank L e of None \<Rightarrow> Inl ValueError | Some re \<Rightarrow> Inr (rc < re)))"
  by (cases "urlparse L (pdf_url c)"; cases "urlparse L (pdf_url e)")
     (auto simp: prefer_asset_def url_rank_def intro: exc.exhaust)

lemma exc_ValueError [simp]: "(e :: exc) = ValueError"
  by (cases e) simp

lemma set_update_subset: "set (AList.update k v m) \<subseteq> insert (k, v) (set m)"
  by (induction m) auto

lemma keyed_Nil [simp]: "keyed []"
  by (simp add: keyed_def)

lemma keyed_update:
  "keyed m \<Longrightarrow> asset_key a = Some k \<Longrightarrow> keyed (AList.update k a m)"
  using set_update_subset[of k a m]
  by (auto simp: keyed_def list_all_iff distinct_update)

lemma keyed_values:
  "keyed m \<Longrightarrow> (k, a) \<in> set m \<Longrightarrow> asset_key a = Some k"
  by (auto simp: keyed_def list_all_iff)

lemma keyed_occupants: "keyed m \<Longrightarrow> occupants m k \<le> 1"
proof -
  assume km: "keyed m"
  have same: "filter (\<lambda>e. fst e = k \<or> asset_key (snd e) = Some k) m = filter (\<lambda>e. fst e = k) m"
    using km by (intro filter_cong) (auto simp: keyed_def list_all_iff)
  have "distinct (map fst m) \<Longrightarrow> length (filter (\<lambda>e. fst e = k) m) \<le> 1"
  proof (induction m)
    case Nil
    then show ?case by simp
  next
    case (Cons e m)
    then have IH: "length (filter (\<lambda>e. fst e = k) m) \<le> 1" by simp
    show ?case
    proof (cases "fst e = k")
      case True
      with Cons.prems have "k \<notin> fst ` set m" by auto
      then have "filter (\<lambda>e. fst e = k) m = []" by (auto simp: filter_empty_conv)
      with True show ?thesis by simp
    next
      case False
      with IH show ?thesis by simp
    qed
  qed
  with km same show ?thesis by (simp add: occupants_def keyed_def)
qed

lemma reconcile_keyed:
  "reconcile L m xs = Inr m' \<Longrightarrow> keyed m \<Longrightarrow> keyed m'"
proof (induction xs arbitrary: m)
  case Nil
  then show ?case by simp
next
  case (Cons x xs)
  show ?case
  proof (cases "asset_key x")
    case None
    with Cons show ?thesis by simp
  next
    case (Some k)
    have upd: "keyed (AList.update k x m)" using Cons.prems(2) Some by (rule keyed_update)
    show ?thesis
    proof (cases "map_of m k")
      case None
      with Some Cons.prems(1) have "reconcile L (AList.update k x m) xs = Inr m'" by simp
      from Cons.IH[OF this upd] show ?thesis .
    next
      case (Some existing)
      show ?thesis
      proof (cases "prefer_asset L x existing")
        case (Inl e)
        with Some \<open>asset_key x = Some k\<close> Cons.prems(1) show ?thesis by simp
      next
        case (Inr better)
        with Some \<open>asset_key x = Some k\<close> Cons.prems(1)
        have "reconcile L (if better then AList.update k x m else m) xs = Inr m'" by simp
        moreover have "keyed (if better then AList.update k x m else m)"
          using upd Cons.prems(2) by simp
        ultimately show ?thesis by (rule Cons.IH)
      qed
    qed
  qed
qed

lemma parsed_values_update:
  "parsed_values L m \<Longrightarrow> url_rank L a \<noteq> None \<Longrightarrow> parsed_values L (AList.update k a m)"
  using set_update_subset[of k a m] by (auto simp: parsed_values_def list_all_iff)

lemma parsed_values_lookup:
  "parsed_values L m \<Longrightarrow> map_of m k = Some e \<Longrightarrow> url_rank L e \<noteq> None"
proof -
  assume pv: "parsed_values L m" and "map_of m k = Some e"
  then have "(k, e) \<in> set m" by (simp add: map_of_SomeD)
  with pv show ?thesis by (fastforce simp: parsed_values_def list_all_iff)
qed

lemma reconcile_total:
  "list_all (\<lambda>a. url_rank L a \<noteq> None) xs \<Longrightarrow> parsed_values L m
     \<Longrightarrow> \<exists>m'. reconcile L m xs = Inr m' \<and> parsed_values L m'"
proof (induction xs arbitrary: m)
  case Nil
  then show ?case by simp
next
  case (Cons x xs)
  from Cons.prems have px: "url_rank L x \<noteq> None" and pxs: "list_all (\<lambda>a. url_rank L a \<noteq> None) xs"
    by simp_all
  show ?case
  proof (cases "asset_key x")
    case None
    with Cons.IH[OF pxs Cons.prems(2)] show ?thesis by simp
  next
    case (Some k)
    have upd: "parsed_values L (AList.update k x m)"
      using Cons.prems(2) px by (rule parsed_values_update)
    show ?thesis
    proof (cases "map_of m k")
      case None
      with Some Cons.IH[OF pxs upd] show ?thesis by simp
    next
      case (Some existing)
      from parsed_values_lookup[OF Cons.prems(2) Some] px
      obtain rc re where r: "url_rank L x = Some rc" "url_rank L existing = Some re" by auto
      then have pa: "prefer_asset L x existing = Inr (rc < re)" by (simp add: prefer_asset_rank)
      have "parsed_values L (if rc < re then AList.update k x m else m)"
        using upd Cons.prems(2) by simp
      from Cons.IH[OF pxs this] pa Some \<open>asset_key x = Some k\<close> show ?thesis by simp
    qed
  qed
qed


lemma map_of_update_other: "k' \<noteq> k \<Longrightarrow> map_of (AList.update k v m) k' = map_of m k'"
  by (simp add: update_conv')

lemma map_of_update_same: "map_of (AList.update k v m) k = Some v"
  by (simp add: update_conv')

text \<open>
  With ranks \<open>ra < rb\<close>: once \<open>a\<close> holds the key it keeps it, and it takes the key
  from \<open>b\<close> or from nobody when it arrives.
\<close>

lemma reconcile_strict:
  assumes ka: "asset_key a = Some k" and kb: "asset_key b = Some k"
    and ra: "url_rank L a = Some ra" and rb: "url_rank L b = Some rb" and lt: "ra < rb"
  shows "list_all (\<lambda>x. url_rank L x \<noteq> None) xs \<Longrightarrow> parsed_values L m
     \<Longrightarrow> list_all (\<lambda>x. asset_key x = Some k \<longrightarrow> x = a \<or> x = b) xs
     \<Longrightarrow> map_of m k = Some a \<or> ((map_of m k = None \<or> map_of m k = Some b) \<and> a \<in> set xs)
     \<Longrightarrow> \<exists>m'. reconcile L m xs = Inr m' \<and> map_of m' k = Some a"
proof (induction xs arbitrary: m)
  case Nil
  then show ?case by simp
next
  case (Cons x xs)
  from Cons.prems have px: "url_rank L x \<noteq> None" and pxs: "list_all (\<lambda>a. url_rank L a \<noteq> None) xs"
    and only: "list_all (\<lambda>x. asset_key x = Some k \<longrightarrow> x = a \<or> x = b) xs"
    and x_ab: "asset_key x = Some k \<longrightarrow> x = a \<or> x = b"
    by simp_all
  note pm = Cons.prems(2)
  note st = Cons.prems(4)
  from lt ra rb have ab: "a \<noteq> b" by auto
  show ?case
  proof (cases "asset_key x")
    case None
    with ka have "x \<noteq> a" by auto
    with st have "map_of m k = Some a \<or> ((map_of m k = None \<or> map_of m k = Some b) \<and> a \<in> set xs)"
      by auto
    from Cons.IH[OF pxs pm only this] None show ?thesis by simp
  next
    case (Some k')
    have upd: "parsed_values L (AList.update k' x m)"
      using pm px by (rule parsed_values_update)
    show ?thesis
    proof (cases "k' = k")
      case False
      with ka Some have xa: "x \<noteq> a" by auto
      have keep: "map_of (AList.update k' x m) k = map_of m k"
        using False by (simp add: map_of_update_other)
      from st xa have st': "map_of m k = Some a \<or> ((map_of m k = None \<or> map_of m k = Some b) \<and> a \<in> set xs)"
        by auto
      show ?thesis
      proof (cases "map_of m k'")
        case None
        from st' keep have "map_of (AList.update k' x m) k = Some a
            \<or> ((map_of (AList.update k' x m) k = None \<or> map_of (AList.update k' x m) k = Some b) \<and> a \<in> set xs)"
          by simp
        from Cons.IH[OF pxs upd only this] None Some show ?thesis by simp
      next
        case (Some existing)
        from parsed_values_lookup[OF pm Some] px
        obtain rc re where "url_rank L x = Some rc" "url_rank L existing = Some re" by auto
        then have pa: "prefer_asset L x existing = Inr (rc < re)" by (simp add: prefer_asset_rank)
        define m1 where "m1 = (if rc < re then AList.update k' x m else m)"
        have p1: "parsed_values L m1" using upd pm by (simp add: m1_def)
        have "map_of m1 k = map_of m k" using keep by (simp add: m1_def)
        with st' have "map_of m1 k = Some a \<or> ((map_of m1 k = None \<or> map_of m1 k = Some b) \<and> a \<in> set xs)"
          by simp
        from Cons.IH[OF pxs p1 only this] pa Some \<open>asset_key x = Some k'\<close> show ?thesis
          by (simp add: m1_def)
      qed
    next
      case True
      with Some x_ab have xab: "x = a \<or> x = b" by simp
      show ?thesis
      proof (cases "map_of m k")
        case None
        have "map_of (AList.update k x m) k = Some a
            \<or> ((map_of (AList.update k x m) k = None \<or> map_of (AList.update k x m) k = Some b) \<and> a \<in> set xs)"
          using xab st None ab by (auto simp: map_of_update_same)
        from Cons.IH[OF pxs _ only this] upd True None Some show ?thesis by simp
      next
        case (Some existing)
        with st have ex: "existing = a \<or> (existing = b \<and> a \<in> set (x # xs))" by auto
        from xab ex ra rb obtain rc re where r: "url_rank L x = Some rc" "url_rank L existing = Some re"
          by auto
        then have pa: "prefer_asset L x existing = Inr (rc < re)" by (simp add: prefer_asset_rank)
        define m1 where "m1 = (if rc < re then AList.update k x m else m)"
        have p1: "parsed_values L m1" using upd pm True by (simp add: m1_def)
        have "map_of m1 k = Some a \<or> ((map_of m1 k = None \<or> map_of m1 k = Some b) \<and> a \<in> set xs)"
          using xab ex r ra rb lt ab Some by (auto simp: m1_def map_of_update_same)
        from Cons.IH[OF pxs p1 only this] pa Some \<open>asset_key x = Some k'\<close> True show ?thesis
          by (simp add: m1_def)
      qed
    qed
  qed
qed

text \<open>With equal ranks nobody who holds the key is replaced: the first to arrive keeps it.\<close>

lemma reconcile_tie:
  assumes ka: "asset_key a = Some k" and kb: "asset_key b = Some k"
    and ra: "url_rank L a = Some r" and rb: "url_rank L b = Some r"
  shows "list_all (\<lambda>x. url_rank L x \<noteq> None) xs \<Longrightarrow> parsed_values L m
     \<Longrightarrow> list_all (\<lambda>x. asset_key x = Some k \<longrightarrow> x = a \<or> x = b) xs
     \<Longrightarrow> map_of m k = None \<or> map_of m k = Some a \<or> map_of m k = Some b
     \<Longrightarrow> \<exists>m'. reconcile L m xs = Inr m'
           \<and> map_of m' k = (case map_of m k of
                              None \<Rightarrow> List.find (\<lambda>x. asset_key x = Some k) xs
                            | Some e \<Rightarrow> Some e)"
proof (induction xs arbitrary: m)
  case Nil
  then show ?case by (simp split: option.splits)
next
  case (Cons x xs)
  from Cons.prems have px: "url_rank L x \<noteq> None" and pxs: "list_all (\<lambda>a. url_rank L a \<noteq> None) xs"
    and only: "list_all (\<lambda>x. asset_key x = Some k \<longrightarrow> x = a \<or> x = b) xs"
    and x_ab: "asset_key x = Some k \<longrightarrow> x = a \<or> x = b"
    by simp_all
  note pm = Cons.prems(2)
  note st = Cons.prems(4)
  show ?case
  proof (cases "asset_key x")
    case None
    from Cons.IH[OF pxs pm only st] None show ?thesis by (simp split: option.splits)
  next
    case (Some k')
    have upd: "parsed_values L (AList.update k' x m)"
      using pm px by (rule parsed_values_update)
    show ?thesis
    proof (cases "k' = k")
      case False
      have keep: "map_of (AList.update k' x m) k = map_of m k"
        using False by (simp add: map_of_update_other)
      show ?thesis
      proof (cases "map_of m k'")
        case None
        from st keep have "map_of (AList.update k' x m) k = None
            \<or> map_of (AList.update k' x m) k = Some a \<or> map_of (AList.update k' x m) k = Some b"
          by simp
        from Cons.IH[OF pxs upd only this] None Some False keep show ?thesis by (simp split: option.splits)
      next
        case (Some existing)
        from parsed_values_lookup[OF pm Some] px
        obtain rc re where "url_rank L x = Some rc" "url_rank L existing = Some re" by auto
        then have pa: "prefer_asset L x existing = Inr (rc < re)" by (simp add: prefer_asset_rank)
        define m1 where "m1 = (if rc < re then AList.update k' x m else m)"
        have p1: "parsed_values L m1" using upd pm by (simp add: m1_def)
        have k1: "map_of m1 k = map_of m k" using keep by (simp add: m1_def)
        with st have st1: "map_of m1 k = None \<or> map_of m1 k = Some a \<or> map_of m1 k = Some b"
          by simp
        have step: "reconcile L m (x # xs) = reconcile L m1 xs"
          using pa Some \<open>asset_key x = Some k'\<close> by (simp add: m1_def)
        have fnd: "List.find (\<lambda>x. asset_key x = Some k) (x # xs)
            = List.find (\<lambda>x. asset_key x = Some k) xs"
          using False \<open>asset_key x = Some k'\<close> by simp
        from Cons.IH[OF pxs p1 only st1] show ?thesis
          unfolding step fnd k1 .
      qed
    next
      case True
      with Some x_ab have xab: "x = a \<or> x = b" by simp
      show ?thesis
      proof (cases "map_of m k")
        case None
        have s1: "map_of (AList.update k x m) k = Some x" by (simp add: map_of_update_same)
        with xab have "map_of (AList.update k x m) k = None
            \<or> map_of (AList.update k x m) k = Some a \<or> map_of (AList.update k x m) k = Some b"
          by auto
        from Cons.IH[OF pxs _ only this] upd True None Some s1 show ?thesis by (simp split: option.splits)
      next
        case (Some existing)
        with st have ex: "existing = a \<or> existing = b" by auto
        from xab ex ra rb have r: "url_rank L x = Some r" "url_rank L existing = Some r"
          by auto
        then have pa: "prefer_asset L x existing = Inr False" by (simp add: prefer_asset_rank)
        from Cons.IH[OF pxs pm only st] pa Some \<open>asset_key x = Some k'\<close> True show ?thesis
          by (simp split: option.splits)
      qed
    qed
  qed
qed


lemma update_member: "(k, v) \<in> set (AList.update k v m)"
  by (induction m) auto

lemma harvest_all_keyed:
  "harvest_all L N m subjects = Inr m' \<Longrightarrow> keyed m \<Longrightarrow> keyed m'"
proof (induction subjects arbitrary: m)
  case Nil
  then show ?case by simp
next
  case (Cons s subjects)
  obtain code config where s: "s = (code, config)" by (cases s)
  from Cons.prems(1) s obtain subject_assets m1 where
    "reconcile L m subject_assets = Inr m1" and rest: "harvest_all L N m1 subjects = Inr m'"
    by (auto split: sum.splits)
  from reconcile_keyed[OF this(1) Cons.prems(2)] have "keyed m1" .
  from Cons.IH[OF rest this] show ?case .
qed

text \<open>
  Claim C1. Reconciling any sequence of candidates into a keyed map gives a keyed map: no
  key occurs twice and every candidate sits under its own canonical key, so at most one
  candidate of the map has a given canonical key. This holds for the loop over one subject,
  started from any keyed map, and for the whole first loop of \<open>main\<close>; the reconciliation
  returns a map whenever the resource URLs of the candidates parse; and an entry claimed or
  replaced under a key leaves exactly one candidate with that key.
\<close>

theorem reconciled_map_unique:
  "(keyed m0 \<and> reconcile L m0 assets = Inr m \<longrightarrow> keyed m \<and> (\<forall>k. occupants m k \<le> 1))
   \<and> (list_all (\<lambda>a. url_rank L a \<noteq> None) assets \<longrightarrow>
        (\<exists>m'. reconcile L [] assets = Inr m' \<and> keyed m'))
   \<and> (harvest_all L N [] subjects = Inr m \<longrightarrow> keyed m \<and> (\<forall>k. occupants m k \<le> 1))
   \<and> (keyed m0 \<and> asset_key a = Some k \<longrightarrow> occupants (AList.update k a m0) k = 1)"
proof (intro conjI impI)
  assume h: "keyed m0 \<and> reconcile L m0 assets = Inr m"
  then show "keyed m" using reconcile_keyed by blast
  then show "\<forall>k. occupants m k \<le> 1" using keyed_occupants by blast
next
  assume "list_all (\<lambda>a. url_rank L a \<noteq> None) assets"
  from reconcile_total[OF this, of "[]"] obtain m' where "reconcile L [] assets = Inr m'"
    by (auto simp: parsed_values_def)
  moreover from this have "keyed m'" using reconcile_keyed keyed_Nil by blast
  ultimately show "\<exists>m'. reconcile L [] assets = Inr m' \<and> keyed m'" by blast
next
  assume "harvest_all L N [] subjects = Inr m"
  then show "keyed m" using harvest_all_keyed keyed_Nil by blast
  then show "\<forall>k. occupants m k \<le> 1" using keyed_occupants by blast
next
  assume h: "keyed m0 \<and> asset_key a = Some k"
  then have "keyed (AList.update k a m0)" using keyed_update by blast
  then have "occupants (AList.update k a m0) k \<le> 1" by (rule keyed_occupants)
  moreover have "filter (\<lambda>e. fst e = k \<or> asset_key (snd e) = Some k) (AList.update k a m0) \<noteq> []"
    using update_member[of k a m0] by (force simp: filter_empty_conv)
  then have "occupants (AList.update k a m0) k \<noteq> 0" by (simp add: occupants_def)
  ultimately show "occupants (AList.update k a m0) k = 1" by simp
qed

text \<open>
  Claim C2. Let \<open>a\<close> and \<open>b\<close> have the canonical key \<open>k\<close> and be the only candidates
  of the sequence with that key, in any positions and any number of times, among candidates
  of other keys. If the host of \<open>a\<close> ranks strictly before the host of \<open>b\<close>, then
  \<open>a\<close> holds \<open>k\<close> in the reconciled map whichever of the two arrives first; if the two
  ranks are equal, the one that arrives first holds it.
\<close>

theorem preference_determinism:
  assumes "asset_key a = Some k" and "asset_key b = Some k"
    and "url_rank L a = Some ra" and "url_rank L b = Some rb"
    and "list_all (\<lambda>x. url_rank L x \<noteq> None) xs"
    and "list_all (\<lambda>x. asset_key x = Some k \<longrightarrow> x = a \<or> x = b) xs"
    and "a \<in> set xs" and "b \<in> set xs"
  shows "\<exists>m. reconcile L [] xs = Inr m
           \<and> (ra < rb \<longrightarrow> map_of m k = Some a)
           \<and> (ra = rb \<longrightarrow> map_of m k = List.find (\<lambda>x. asset_key x = Some k) xs)"
proof -
  have pv: "parsed_values L []" by (simp add: parsed_values_def)
  from reconcile_total[OF assms(5) pv] obtain m where m: "reconcile L [] xs = Inr m" by blast
  have "map_of m k = Some a" if "ra < rb"
    using reconcile_strict[OF assms(1-4) that assms(5) pv assms(6)] assms(7) m by auto
  moreover have "map_of m k = List.find (\<lambda>x. asset_key x = Some k) xs" if "ra = rb"
    using reconcile_tie[OF assms(1,2) assms(3) assms(4)[folded that] assms(5) pv assms(6)] m
    by auto
  ultimately show ?thesis using m by blast
qed

lemma ex_key: "asset_key (asset_at u) = Some (''Math'', 2021, ''Normale'', ''MainExam'')"
  by code_simp

lemma ex_ranks:
  "url_rank std_library (asset_at ''https://telmidtice.com/m.pdf'') = Some 0"
  "url_rank std_library (asset_at ''https://www.taalime.ma/m.pdf'') = Some 4"
  "url_rank std_library (asset_at ''https://example.org/m.pdf'') = Some 4"
  by code_simp+


theorem reconciled_map_unique_witness:
  "keyed []
   \<and> reconcile std_library []
        [asset_at ''https://www.taalime.ma/m.pdf'', asset_at ''https://telmidtice.com/m.pdf'']
       = Inr [((''Math'', 2021, ''Normale'', ''MainExam''), asset_at ''https://telmidtice.com/m.pdf'')]
   \<and> occupants [((''Math'', 2021, ''Normale'', ''MainExam''), asset_at ''https://telmidtice.com/m.pdf'')]
         (''Math'', 2021, ''Normale'', ''MainExam'') \<le> 1
   \<and> occupants (AList.update (''Math'', 2021, ''Normale'', ''MainExam'')
                   (asset_at ''https://www.taalime.ma/m.pdf'')
                   [((''Math'', 2021, ''Normale'', ''MainExam''), asset_at ''https://telmidtice.com/m.pdf'')])
         (''Math'', 2021, ''Normale'', ''MainExam'') = 1"
proof -
  define k where "k = (''Math'', 2021::int, ''Normale'', ''MainExam'')"
  define m where "m = [(k, asset_at ''https://telmidtice.com/m.pdf'')]"
  have run: "reconcile std_library []
        [asset_at ''https://www.taalime.ma/m.pdf'', asset_at ''https://telmidtice.com/m.pdf''] = Inr m"
    using ex_ranks by (simp add: ex_key prefer_asset_rank m_def k_def)
  from reconciled_map_unique[of "[]" std_library
      "[asset_at ''https://www.taalime.ma/m.pdf'', asset_at ''https://telmidtice.com/m.pdf'']" m]
    run keyed_Nil
  have km: "keyed m" and one: "occupants m k \<le> 1" by blast+
  have "asset_key (asset_at ''https://www.taalime.ma/m.pdf'') = Some k"
    by (simp add: ex_key k_def)
  with reconciled_map_unique[of m _ _ _ _ _ "asset_at ''https://www.taalime.ma/m.pdf''" k] km
  have "occupants (AList.update k (asset_at ''https://www.taalime.ma/m.pdf'') m) k = 1"
    by blast
  with run one show ?thesis by (simp add: m_def k_def)
qed

theorem preference_determinism_witness:
  "(\<exists>m. reconcile std_library []
          [asset_at ''https://www.taalime.ma/m.pdf'', asset_at ''https://telmidtice.com/m.pdf''] = Inr m
        \<and> map_of m (''Math'', 2021, ''Normale'', ''MainExam'')
            = Some (asset_at ''https://telmidtice.com/m.pdf''))
   \<and> (\<exists>m. reconcile std_library []
          [asset_at ''https://telmidtice.com/m.pdf'', asset_at ''https://www.taalime.ma/m.pdf''] = Inr m
        \<and> map_of m (''Math'', 2021, ''Normale'', ''MainExam'')
            = Some (asset_at ''https://telmidtice.com/m.pdf''))
   \<and> (\<exists>m. reconcile std_library []
          [asset_at ''https://www.taalime.ma/m.pdf'', asset_at ''https://example.org/m.pdf''] = Inr m
        \<and> map_of m (''Math'', 2021, ''Normale'', ''MainExam'')
            = Some (asset_at ''https://www.taalime.ma/m.pdf''))"
proof -
  define t where "t = asset_at ''https://telmidtice.com/m.pdf''"
  define o1 where "o1 = asset_at ''https://www.taalime.ma/m.pdf''"
  define o2 where "o2 = asset_at ''https://example.org/m.pdf''"
  define k where "k = (''Math'', 2021::int, ''Normale'', ''MainExam'')"
  have kt: "asset_key t = Some k" and k1: "asset_key o1 = Some k" and k2: "asset_key o2 = Some k"
    by (simp_all add: t_def o1_def o2_def k_def ex_key)
  have rt: "url_rank std_library t = Some 0" and r1: "url_rank std_library o1 = Some 4"
    and r2: "url_rank std_library o2 = Some 4"
    by (simp_all add: t_def o1_def o2_def ex_ranks)
  have "\<exists>m. reconcile std_library [] [o1, t] = Inr m \<and> map_of m k = Some t"
    using preference_determinism[OF kt k1 rt r1, of "[o1, t]"] rt r1 by simp
  moreover have "\<exists>m. reconcile std_library [] [t, o1] = Inr m \<and> map_of m k = Some t"
    using preference_determinism[OF kt k1 rt r1, of "[t, o1]"] rt r1 by simp
  moreover have "\<exists>m. reconcile std_library [] [o1, o2] = Inr m \<and> map_of m k = Some o1"
    using preference_determinism[OF k1 k2 r1 r2, of "[o1, o2]"] r1 r2 k1 by simp
  ultimately show ?thesis unfolding t_def o1_def o2_def k_def by blast
qed


section \<open>Gap synthesis commits after the probe\<close>

lemma keys_product:
  "map target_key (gap_targets root)
     = List.product [''Math'', ''PC'', ''SVT'']
         (List.product YEARS (List.product TARGET_SESSIONS TARGET_ASSET_TYPES))"
  by (simp add: gap_targets_def SUBJECT_SOURCES_def target_key_def product_concat_map
      map_concat o_def)

lemma gap_targets_distinct: "distinct (map target_key (gap_targets root))"
  unfolding keys_product
  by (intro distinct_product) (simp_all add: YEARS_def TARGET_SESSIONS_def TARGET_ASSET_TYPES_def)

lemma gap_targets_member:
  assumes "t \<in> set (gap_targets root)"
  obtains code config yr sn tn where "t = (code, config, yr, sn, tn)"
    and "code \<in> {''Math'', ''PC'', ''SVT''}" and "yr \<in> set YEARS"
    and "sn \<in> set TARGET_SESSIONS" and "tn \<in> set TARGET_ASSET_TYPES"
proof -
  obtain code config yr sn tn where t: "t = (code, config, yr, sn, tn)" by (cases t)
  from assms have "target_key t \<in> set (map target_key (gap_targets root))" by simp
  then have "code \<in> {''Math'', ''PC'', ''SVT''} \<and> yr \<in> set YEARS
      \<and> sn \<in> set TARGET_SESSIONS \<and> tn \<in> set TARGET_ASSET_TYPES"
    unfolding keys_product by (auto simp: t target_key_def)
  with t that show ?thesis by blast
qed

lemma session_label_target: "sn \<in> set TARGET_SESSIONS \<Longrightarrow> get_default SESSION_LABELS sn sn = sn"
  by (auto simp: TARGET_SESSIONS_def SESSION_LABELS_def get_default_def)

lemma build_telmid_asset_Some:
  "build_telmid_asset N code l f yr sn tn = Some a \<Longrightarrow>
     fallback_url (code, yr, sn, tn) = Some (pdf_url a) \<and> head N (pdf_url a) = HeadResponse 200
     \<and> subject_code a = code \<and> year a = Some (py_str yr) \<and> session a = Some sn
     \<and> asset_type a = tn"
  by (auto simp: build_telmid_asset_def fallback_url_def Let_def
      split: option.splits head_response.splits if_splits)

lemma build_telmid_asset_probe:
  "fallback_url (code, yr, sn, tn) = Some u \<Longrightarrow>
     (head N u \<noteq> HeadResponse 200 \<longrightarrow> build_telmid_asset N code l f yr sn tn = None)
     \<and> (head N u = HeadResponse 200 \<longrightarrow>
          (\<exists>a. build_telmid_asset N code l f yr sn tn = Some a \<and> pdf_url a = u))"
  by (auto simp: build_telmid_asset_def fallback_url_def Let_def
      split: option.splits head_response.splits if_splits)

lemma build_telmid_asset_key:
  assumes "build_telmid_asset N code l f yr sn tn = Some a"
    and "0 \<le> yr" and "sn \<in> set TARGET_SESSIONS" and "tn \<in> set TARGET_ASSET_TYPES"
  shows "asset_key a = Some (code, yr, sn, tn)"
proof -
  from build_telmid_asset_Some[OF assms(1)]
  have "subject_code a = code" "year a = Some (py_str yr)" "session a = Some sn" "asset_type a = tn"
    by simp_all
  with assms(2-4) show ?thesis
    by (simp add: asset_key_def py_int_py_str session_label_target)
qed

lemma years_nonneg: "yr \<in> set YEARS \<Longrightarrow> 0 \<le> yr"
  by (auto simp: YEARS_def)

lemma fallback_url_target:
  "t \<in> set (gap_targets root) \<Longrightarrow> \<exists>u. fallback_url (target_key t) = Some u"
proof -
  assume "t \<in> set (gap_targets root)"
  then obtain code config yr sn tn where t: "t = (code, config, yr, sn, tn)"
    and "code \<in> {''Math'', ''PC'', ''SVT''}" and "tn \<in> set TARGET_ASSET_TYPES"
    by (rule gap_targets_member)
  then show ?thesis
    by (auto simp: target_key_def fallback_url_def TELMID_PATTERNS_def TYPE_LABELS_def
        TARGET_ASSET_TYPES_def)
qed

lemma synthesize_key:
  "t \<in> set (gap_targets root) \<Longrightarrow> synthesize N t = Some a \<Longrightarrow> asset_key a = Some (target_key t)"
proof -
  assume t_in: "t \<in> set (gap_targets root)" and s: "synthesize N t = Some a"
  from t_in obtain code config yr sn tn where t: "t = (code, config, yr, sn, tn)"
    and "yr \<in> set YEARS" and "sn \<in> set TARGET_SESSIONS" and "tn \<in> set TARGET_ASSET_TYPES"
    by (rule gap_targets_member)
  with s show ?thesis
    using build_telmid_asset_key[of N code "label config" "folder config" yr sn tn a]
    by (simp add: synthesize_def target_key_def years_nonneg)
qed

lemma update_absent: "map_of m k = None \<Longrightarrow> AList.update k v m = m @ [(k, v)]"
  by (induction m) (auto split: if_splits)

lemma fill_gap_cases:
  "fill_gap N m t =
     (if map_of m (target_key t) \<noteq> None then m
      else (case synthesize N t of None \<Rightarrow> m | Some a \<Rightarrow> AList.update (target_key t) a m))"
  by (cases t) (auto simp: fill_gap_def synthesize_def target_key_def Let_def split: option.splits)

lemma fill_gap_other:
  "target_key t \<noteq> k \<Longrightarrow> map_of (fill_gap N m t) k = map_of m k"
  by (simp add: fill_gap_cases map_of_update_other split: option.splits)

lemma fill_gap_at:
  "map_of m (target_key t) = None \<Longrightarrow> map_of (fill_gap N m t) (target_key t) = synthesize N t"
  by (simp add: fill_gap_cases map_of_update_same split: option.splits)

lemma fill_gaps_Cons: "fill_gaps N m (t # ts) = fill_gaps N (fill_gap N m t) ts"
  by (simp add: fill_gaps_def)

lemma fill_gaps_Nil: "fill_gaps N m [] = m"
  by (simp add: fill_gaps_def)

lemma fill_gaps_absent:
  "k \<notin> target_key ` set ts \<Longrightarrow> map_of (fill_gaps N m ts) k = map_of m k"
  by (induction ts arbitrary: m) (auto simp: fill_gaps_Cons fill_gaps_Nil fill_gap_other)

lemma fill_gaps_at:
  "distinct (map target_key ts) \<Longrightarrow> t \<in> set ts \<Longrightarrow> map_of m (target_key t) = None
     \<Longrightarrow> map_of (fill_gaps N m ts) (target_key t) = synthesize N t"
proof (induction ts arbitrary: m)
  case Nil
  then show ?case by simp
next
  case (Cons x ts)
  show ?case
  proof (cases "x = t")
    case True
    with Cons.prems(1) have "target_key t \<notin> target_key ` set ts" by auto
    then have "map_of (fill_gaps N (fill_gap N m t) ts) (target_key t)
        = map_of (fill_gap N m t) (target_key t)"
      by (rule fill_gaps_absent)
    with True Cons.prems(3) show ?thesis by (simp add: fill_gaps_Cons fill_gap_at)
  next
    case False
    with Cons.prems have t: "t \<in> set ts" and d: "distinct (map target_key ts)"
      and ne: "target_key x \<noteq> target_key t"
      by auto
    from ne Cons.prems(3) have "map_of (fill_gap N m x) (target_key t) = None"
      by (simp add: fill_gap_other)
    from Cons.IH[OF d t this] show ?thesis by (simp add: fill_gaps_Cons)
  qed
qed

lemma fill_gap_keyed:
  "keyed m \<Longrightarrow> t \<in> set (gap_targets root) \<Longrightarrow> keyed (fill_gap N m t)"
  by (auto simp: fill_gap_cases keyed_update synthesize_key split: option.splits)

lemma fill_gaps_keyed:
  "keyed m \<Longrightarrow> set ts \<subseteq> set (gap_targets root) \<Longrightarrow> keyed (fill_gaps N m ts)"
  by (induction ts arbitrary: m) (auto simp: fill_gaps_Cons fill_gaps_Nil fill_gap_keyed)

lemma keyed_absent:
  "keyed m \<Longrightarrow> map_of m k = None \<Longrightarrow> a \<in> snd ` set m \<Longrightarrow> asset_key a \<noteq> Some k"
proof
  assume km: "keyed m" and none: "map_of m k = None" and a: "a \<in> snd ` set m"
    and key: "asset_key a = Some k"
  from a obtain k' where in_m: "(k', a) \<in> set m" by auto
  with km have "asset_key a = Some k'" by (rule keyed_values)
  with key have "k' = k" by simp
  with in_m have "k \<in> fst ` set m" by force
  with none show False by (simp add: map_of_eq_None_iff)
qed

lemma fetch_all_subset: "set (fst (fetch_all N w xs)) \<subseteq> set xs"
proof (induction xs arbitrary: w)
  case Nil
  then show ?case by simp
next
  case (Cons x xs)
  obtain ok w1 where d: "download_pdf N w x = (ok, w1)" by (cases "download_pdf N w x")
  obtain manifest w2 where f: "fetch_all N w1 xs = (manifest, w2)" by (cases "fetch_all N w1 xs")
  from Cons.IH[of w1] f have "set manifest \<subseteq> set xs" by simp
  with d f show ?case by auto
qed

lemma sort_year_keyed: "asset_key a = Some k \<Longrightarrow> \<exists>yr. sort_year a = Inr yr"
  by (auto simp: asset_key_def sort_year_def split: option.splits if_splits)

lemma sort_keys_keyed:
  "\<forall>a \<in> set xs. asset_key a \<noteq> None \<Longrightarrow> \<exists>ks. sort_keys xs = Inr ks \<and> map snd ks = xs"
proof (induction xs)
  case Nil
  then show ?case by simp
next
  case (Cons a xs)
  then obtain ks where ks: "sort_keys xs = Inr ks" "map snd ks = xs" by auto
  from Cons.prems obtain k where "asset_key a = Some k" by auto
  from sort_year_keyed[OF this] obtain yr where "sort_year a = Inr yr" by blast
  then obtain t where "sort_tuple a = Inr t" by (simp add: sort_tuple_def)
  with ks show ?case by simp
qed

lemma sorted_assets_keyed:
  assumes "keyed m"
  shows "\<exists>assets. sorted_assets m = Inr assets \<and> set assets = snd ` set m"
proof -
  from assms have "\<forall>a \<in> set (map snd m). asset_key a \<noteq> None"
    by (auto simp: keyed_def list_all_iff)
  from sort_keys_keyed[OF this] obtain ks where ks: "sort_keys (map snd m) = Inr ks"
    "map snd ks = map snd m" by blast
  have "set (map snd (sort_key fst ks)) = set (map snd ks)" by simp
  with ks show ?thesis by (simp add: sorted_assets_def)
qed


lemma distinct_map_filter_length:
  "distinct (map f xs) \<Longrightarrow> x \<in> set xs \<Longrightarrow> length (filter (\<lambda>y. f y = f x) xs) = 1"
proof (induction xs)
  case Nil
  then show ?case by simp
next
  case (Cons y xs)
  show ?case
  proof (cases "f y = f x")
    case True
    with Cons.prems(1) have "f x \<notin> f ` set xs" by auto
    then have "\<forall>y\<in>set xs. f y \<noteq> f x" by (metis imageI)
    then have "filter (\<lambda>y. f y = f x) xs = []" by (simp add: filter_empty_conv)
    with True show ?thesis by simp
  next
    case False
    with Cons.prems have "x \<in> set xs" "distinct (map f xs)" by auto
    with Cons.IH False show ?thesis by simp
  qed
qed

lemma gap_targets_intro:
  assumes "(code, config) \<in> set (SUBJECT_SOURCES root)" and "yr \<in> set YEARS"
    and "sn \<in> set TARGET_SESSIONS" and "tn \<in> set TARGET_ASSET_TYPES"
  shows "(code, config, yr, sn, tn) \<in> set (gap_targets root)"
proof -
  have "(code, config, yr, sn, tn)
      \<in> (\<Union>(c, cfg)\<in>set (SUBJECT_SOURCES root). \<Union>y\<in>set YEARS. \<Union>s\<in>set TARGET_SESSIONS.
           (\<lambda>t. (c, cfg, y, s, t)) ` set TARGET_ASSET_TYPES)"
    using assms by blast
  also have "\<dots> = set (gap_targets root)"
    unfolding gap_targets_def by (simp add: split_def)
  finally show ?thesis .
qed

text \<open>
  Claim C3. Let a key of the expected key space be absent from the reconciled map. The gap
  synthesis looks at it once, and builds for it the one URL of the template of its subject.
  If the probe of that URL does not answer 200 (another status, or an exception), the step
  leaves the map as it is, the key is still absent after the whole synthesis, and no
  candidate with that key, in particular none that the synthesis could build for it, is in
  the manifest of the run. If the probe answers 200, the step appends the candidate, which
  has that key and that URL, and the candidate holds the key after the synthesis.
\<close>

theorem gap_fill_commit:
  assumes "harvest_all L N [] (SUBJECT_SOURCES root) = Inr m"
    and "t \<in> set (gap_targets root)"
    and "map_of m (target_key t) = None"
  shows "\<exists>u. fallback_url (target_key t) = Some u
      \<and> length (filter (\<lambda>t'. target_key t' = target_key t) (gap_targets root)) = 1
      \<and> (head N u \<noteq> HeadResponse 200 \<longrightarrow>
           (\<forall>m'. map_of m' (target_key t) = None \<longrightarrow> fill_gap N m' t = m')
           \<and> map_of (fill_gaps N m (gap_targets root)) (target_key t) = None
           \<and> (\<exists>manifest w'. main L N root w = Inr (manifest, w')
                \<and> (\<forall>a\<in>set manifest. asset_key a \<noteq> Some (target_key t))
                \<and> (\<forall>N' a. synthesize N' t = Some a \<longrightarrow> a \<notin> set manifest)))
      \<and> (head N u = HeadResponse 200 \<longrightarrow>
           (\<exists>a. synthesize N t = Some a \<and> pdf_url a = u \<and> asset_key a = Some (target_key t)
              \<and> (\<forall>m'. map_of m' (target_key t) = None \<longrightarrow>
                    fill_gap N m' t = m' @ [(target_key t, a)])
              \<and> map_of (fill_gaps N m (gap_targets root)) (target_key t) = Some a))"
proof -
  define k where "k = target_key t"
  define final where "final = fill_gaps N m (gap_targets root)"
  from fallback_url_target[OF assms(2)] obtain u where u: "fallback_url k = Some u"
    by (auto simp: k_def)
  obtain code config yr sn tn where t: "t = (code, config, yr, sn, tn)" by (cases t)
  then have kt: "k = (code, yr, sn, tn)" by (simp add: k_def target_key_def)
  have syn: "synthesize N t = build_telmid_asset N code (label config) (folder config) yr sn tn"
    by (simp add: t synthesize_def)
  have once: "length (filter (\<lambda>t'. target_key t' = k) (gap_targets root)) = 1"
    unfolding k_def using gap_targets_distinct assms(2) by (rule distinct_map_filter_length)
  have km: "keyed m" using assms(1) keyed_Nil by (rule harvest_all_keyed)
  have kf: "keyed final" unfolding final_def using km by (rule fill_gaps_keyed[where root = root]) simp
  have at: "map_of final k = synthesize N t"
    unfolding final_def k_def using gap_targets_distinct assms(2,3) by (rule fill_gaps_at)
  from sorted_assets_keyed[OF kf] obtain ordered where ordered: "sorted_assets final = Inr ordered"
    "set ordered = snd ` set final" by blast
  have run: "main L N root w = Inr (fetch_all N w ordered)"
    using assms(1) ordered(1) by (simp add: main_def final_def)
  have fail: "(\<forall>m'. map_of m' k = None \<longrightarrow> fill_gap N m' t = m')
           \<and> map_of final k = None
           \<and> (\<exists>manifest w'. main L N root w = Inr (manifest, w')
                \<and> (\<forall>a\<in>set manifest. asset_key a \<noteq> Some k)
                \<and> (\<forall>N' a. synthesize N' t = Some a \<longrightarrow> a \<notin> set manifest))"
    if probe: "head N u \<noteq> HeadResponse 200"
  proof -
    from build_telmid_asset_probe[OF u[unfolded kt], of N] probe
    have none: "synthesize N t = None" by (simp add: syn)
    then have step: "\<forall>m'. map_of m' k = None \<longrightarrow> fill_gap N m' t = m'"
      by (simp add: fill_gap_cases k_def)
    from none at have absent: "map_of final k = None" by simp
    obtain manifest w' where f: "fetch_all N w ordered = (manifest, w')"
      by (cases "fetch_all N w ordered")
    have sub: "set manifest \<subseteq> snd ` set final"
      using fetch_all_subset[of N w ordered] f by (simp add: ordered(2))
    have no_key: "\<forall>a\<in>set manifest. asset_key a \<noteq> Some k"
      using keyed_absent[OF kf absent] sub by blast
    have "\<forall>N' a. synthesize N' t = Some a \<longrightarrow> a \<notin> set manifest"
      using synthesize_key[OF assms(2)] no_key by (auto simp: k_def)
    with step absent run f no_key show ?thesis by simp
  qed
  have ok: "\<exists>a. synthesize N t = Some a \<and> pdf_url a = u \<and> asset_key a = Some k
              \<and> (\<forall>m'. map_of m' k = None \<longrightarrow> fill_gap N m' t = m' @ [(k, a)])
              \<and> map_of final k = Some a"
    if probe: "head N u = HeadResponse 200"
  proof -
    from build_telmid_asset_probe[OF u[unfolded kt], of N] probe
    obtain a where a: "synthesize N t = Some a" "pdf_url a = u" by (auto simp: syn)
    from synthesize_key[OF assms(2) a(1)] have "asset_key a = Some k" by (simp add: k_def)
    moreover from a(1) have "\<forall>m'. map_of m' k = None \<longrightarrow> fill_gap N m' t = m' @ [(k, a)]"
      by (simp add: fill_gap_cases k_def update_absent)
    ultimately show ?thesis using a at by simp
  qed
  from u once fail ok show ?thesis unfolding k_def final_def by blast
qed

lemma ex_urls:
  "fallback_url (''Math'', 2008, ''Normale'', ''MainExam'') = Some math_2008_url"
  "fallback_url (''SVT'', 2009, ''Rattrapage'', ''Correction'') = Some svt_2009_url"
  by code_simp+

lemma ex_probes:
  "head (probe_network svt_2009_url chunks broken) svt_2009_url = HeadResponse 200"
  "head (probe_network svt_2009_url chunks broken)
     math_2008_url = HeadResponse 404"
  by (simp_all add: probe_network_def svt_2009_url_def math_2008_url_def)

theorem gap_fill_commit_witness:
  "harvest_all std_library (probe_network svt_2009_url [''%PDF-1.4''] False) []
      (SUBJECT_SOURCES [''bac'']) = Inr []
   \<and> map_of (fill_gaps (probe_network svt_2009_url [''%PDF-1.4''] False) [] (gap_targets [''bac'']))
        (''Math'', 2008, ''Normale'', ''MainExam'') = None
   \<and> (\<exists>a. map_of (fill_gaps (probe_network svt_2009_url [''%PDF-1.4''] False) [] (gap_targets [''bac'']))
              (''SVT'', 2009, ''Rattrapage'', ''Correction'') = Some a
          \<and> pdf_url a = svt_2009_url)"
proof -
  define N where "N = probe_network svt_2009_url [''%PDF-1.4''] False"
  define root where "root = [''bac'']"
  have harvest: "harvest_all std_library N [] (SUBJECT_SOURCES root) = Inr []"
    by (simp add: SUBJECT_SOURCES_def harvest_subject_def N_def probe_network_def)
  obtain c1 where c1: "(''Math'', c1) \<in> set (SUBJECT_SOURCES root)"
    by (auto simp: SUBJECT_SOURCES_def)
  obtain c2 where c2: "(''SVT'', c2) \<in> set (SUBJECT_SOURCES root)"
    by (auto simp: SUBJECT_SOURCES_def)
  define t1 where "t1 = (''Math'', c1, 2008::int, ''Normale'', ''MainExam'')"
  define t2 where "t2 = (''SVT'', c2, 2009::int, ''Rattrapage'', ''Correction'')"
  have in1: "t1 \<in> set (gap_targets root)" unfolding t1_def using c1
    by (rule gap_targets_intro) (simp_all add: YEARS_def TARGET_SESSIONS_def TARGET_ASSET_TYPES_def)
  have in2: "t2 \<in> set (gap_targets root)" unfolding t2_def using c2
    by (rule gap_targets_intro) (simp_all add: YEARS_def TARGET_SESSIONS_def TARGET_ASSET_TYPES_def)
  have k1: "target_key t1 = (''Math'', 2008, ''Normale'', ''MainExam'')"
    and k2: "target_key t2 = (''SVT'', 2009, ''Rattrapage'', ''Correction'')"
    by (simp_all add: t1_def t2_def target_key_def)
  have e1: "map_of ([] :: assets_by_key) (target_key t1) = None"
    and e2: "map_of ([] :: assets_by_key) (target_key t2) = None"
    by simp_all
  from gap_fill_commit[OF harvest in1 e1, of empty_world] obtain u1 where
    u1: "fallback_url (target_key t1) = Some u1"
    and f1: "head N u1 \<noteq> HeadResponse 200 \<longrightarrow>
        map_of (fill_gaps N [] (gap_targets root)) (target_key t1) = None"
    by blast
  from u1 have "u1 = math_2008_url" unfolding k1 by (simp add: ex_urls(1))
  then have "head N u1 = HeadResponse 404"
    unfolding N_def by (simp add: ex_probes(2))
  with f1 have r1: "map_of (fill_gaps N [] (gap_targets root)) (target_key t1) = None"
    by simp
  from gap_fill_commit[OF harvest in2 e2, of empty_world] obtain u2 where
    u2: "fallback_url (target_key t2) = Some u2"
    and f2: "head N u2 = HeadResponse 200 \<longrightarrow>
        (\<exists>a. pdf_url a = u2 \<and> map_of (fill_gaps N [] (gap_targets root)) (target_key t2) = Some a)"
    by blast
  from u2 have "u2 = svt_2009_url" unfolding k2 by (simp add: ex_urls(2))
  with f2 have r2: "\<exists>a. map_of (fill_gaps N [] (gap_targets root)) (target_key t2) = Some a
      \<and> pdf_url a = svt_2009_url"
    unfolding N_def by (auto simp: ex_probes(1))
  from harvest r1 r2 show ?thesis
    unfolding k1 k2 N_def root_def by (intro conjI)
qed


section \<open>Fetch and validate: skips and failures\<close>

lemma write_chunks_first:
  "fst (write_chunks fb body chunks) = (case fb of None \<Rightarrow> first_chunk chunks | Some b \<Rightarrow> Some b)"
  by (induction chunks arbitrary: fb body) (auto simp: first_chunk_def split: option.splits)

lemma write_chunks_firstD:
  "write_chunks None [] chunks = (fb, body) \<Longrightarrow> fb = first_chunk chunks"
  using write_chunks_first[of None "[]" chunks] by simp

lemma download_pdf_existing:
  "files w (local_path asset) \<noteq> None \<Longrightarrow> download_pdf N w asset = (True, w)"
  by (simp add: download_pdf_def)

lemma fetch_all_populated:
  "populated w assets \<Longrightarrow> fetch_all N w assets = (assets, w)"
  by (induction assets) (simp_all add: populated_def download_pdf_existing)

lemma download_pdf_other:
  "p \<noteq> local_path asset \<Longrightarrow> files (snd (download_pdf N w asset)) p = files w p"
  by (auto simp: download_pdf_def request_failed_def unlink_def Let_def
      split: get_response.splits prod.splits)

lemma download_pdf_keeps:
  "files w p \<noteq> None \<Longrightarrow> files (snd (download_pdf N w asset)) p \<noteq> None"
proof (cases "p = local_path asset")
  case True
  assume "files w p \<noteq> None"
  with True show ?thesis by (simp add: download_pdf_def)
next
  case False
  assume "files w p \<noteq> None"
  with False show ?thesis by (simp add: download_pdf_other)
qed

lemma download_pdf_accepted:
  "fst (download_pdf N w asset) \<Longrightarrow> files (snd (download_pdf N w asset)) (local_path asset) \<noteq> None"
  by (auto simp: download_pdf_def request_failed_def unlink_def Let_def
      split: get_response.splits prod.splits if_splits)

lemma fetch_all_Cons:
  "fetch_all N w (a # rest) =
     (if fst (download_pdf N w a)
      then a # fst (fetch_all N (snd (download_pdf N w a)) rest)
      else fst (fetch_all N (snd (download_pdf N w a)) rest),
      snd (fetch_all N (snd (download_pdf N w a)) rest))"
  by (simp split: prod.splits)

lemma fetch_all_keeps:
  "files w p \<noteq> None \<Longrightarrow> files (snd (fetch_all N w xs)) p \<noteq> None"
proof (induction xs arbitrary: w)
  case Nil
  then show ?case by simp
next
  case (Cons a xs)
  from Cons.prems have "files (snd (download_pdf N w a)) p \<noteq> None" by (rule download_pdf_keeps)
  then have "files (snd (fetch_all N (snd (download_pdf N w a)) xs)) p \<noteq> None" by (rule Cons.IH)
  then show ?case by (simp add: fetch_all_Cons del: fetch_all.simps)
qed

lemma fetch_all_length: "length (fst (fetch_all N w xs)) \<le> length xs"
proof (induction xs arbitrary: w)
  case Nil
  then show ?case by simp
next
  case (Cons a xs)
  from Cons.IH[of "snd (download_pdf N w a)"] show ?case
    by (simp add: fetch_all_Cons del: fetch_all.simps)
qed

lemma fetch_all_accepted:
  "fst (fetch_all N w xs) = xs \<Longrightarrow> populated (snd (fetch_all N w xs)) xs"
proof (induction xs arbitrary: w)
  case Nil
  then show ?case by (simp add: populated_def)
next
  case (Cons a xs)
  define w1 where "w1 = snd (download_pdf N w a)"
  have len: "length (fst (fetch_all N w1 xs)) \<le> length xs" by (rule fetch_all_length)
  have ok: "fst (download_pdf N w a)"
  proof (rule ccontr)
    assume "\<not> fst (download_pdf N w a)"
    with Cons.prems have "fst (fetch_all N w1 xs) = a # xs"
      by (simp add: fetch_all_Cons w1_def del: fetch_all.simps)
    with len show False by simp
  qed
  with Cons.prems have rest: "fst (fetch_all N w1 xs) = xs"
    by (simp add: fetch_all_Cons w1_def del: fetch_all.simps)
  from ok have "files w1 (local_path a) \<noteq> None" unfolding w1_def by (rule download_pdf_accepted)
  then have "files (snd (fetch_all N w1 xs)) (local_path a) \<noteq> None" by (rule fetch_all_keeps)
  moreover from Cons.IH[OF rest] have "populated (snd (fetch_all N w1 xs)) xs" .
  ultimately show ?case
    by (simp add: fetch_all_Cons w1_def populated_def del: fetch_all.simps)
qed

text \<open>
  Claim C5. A candidate whose destination exists is reported accepted with the world
  unchanged: no file is written or read and no download is requested. So over a storage
  tree that holds the file of every candidate, a run accepts every candidate and changes
  nothing, and a second run, whatever the network then answers, gives the same accepted
  set with the same list of downloads. The same holds after any first run that accepted
  every candidate.
\<close>

theorem existing_files_skipped:
  "(files w (local_path asset) \<noteq> None \<longrightarrow> download_pdf N w asset = (True, w))
   \<and> (populated w assets \<longrightarrow>
        fetch_all N w assets = (assets, w)
        \<and> fetch_all N' (snd (fetch_all N w assets)) assets = fetch_all N w assets
        \<and> downloads (snd (fetch_all N' (snd (fetch_all N w assets)) assets)) = downloads w)
   \<and> (fst (fetch_all N w assets) = assets \<longrightarrow>
        fetch_all N' (snd (fetch_all N w assets)) assets = (assets, snd (fetch_all N w assets)))"
proof (intro conjI impI)
  assume "files w (local_path asset) \<noteq> None"
  then show "download_pdf N w asset = (True, w)" by (rule download_pdf_existing)
next
  assume p: "populated w assets"
  then show 1: "fetch_all N w assets = (assets, w)" by (rule fetch_all_populated)
  from p show "fetch_all N' (snd (fetch_all N w assets)) assets = fetch_all N w assets"
    by (simp add: fetch_all_populated)
  from p show "downloads (snd (fetch_all N' (snd (fetch_all N w assets)) assets)) = downloads w"
    by (simp add: fetch_all_populated)
next
  assume "fst (fetch_all N w assets) = assets"
  then have "populated (snd (fetch_all N w assets)) assets" by (rule fetch_all_accepted)
  then show "fetch_all N' (snd (fetch_all N w assets)) assets = (assets, snd (fetch_all N w assets))"
    by (rule fetch_all_populated)
qed

lemma download_pdf_failed:
  assumes "files w (local_path asset) = None"
    and "get_stream N (pdf_url asset) = GetError
         \<or> (\<exists>code chunks broken. get_stream N (pdf_url asset) = GetResponse code chunks broken
               \<and> (raises_for_status code \<or> broken \<or> \<not> looks_like_pdf (first_chunk chunks)))"
  shows "fst (download_pdf N w asset) = False"
    and "files (snd (download_pdf N w asset)) (local_path asset) = None"
  using assms
  by (auto simp: download_pdf_def request_failed_def unlink_def Let_def
      dest: write_chunks_firstD split: get_response.splits prod.splits)

text \<open>
  Claim C4, amended. Let the destination of a candidate not exist. If the request fails or
  answers with an error status, if the stream breaks after any number of chunks, or if the
  stream ends and its first non-empty chunk, leading whitespace removed, does not start
  with \<open>%PDF\<close> (or there is no such chunk), then the candidate is reported failed, no
  file is at its destination afterwards, no other file is touched, and the run goes on with
  the remaining candidates, with this one out of the manifest.
\<close>

theorem failed_download_leaves_no_file:
  assumes "files w (local_path asset) = None"
    and "get_stream N (pdf_url asset) = GetError
         \<or> (\<exists>code chunks broken. get_stream N (pdf_url asset) = GetResponse code chunks broken
               \<and> (raises_for_status code \<or> broken \<or> \<not> looks_like_pdf (first_chunk chunks)))"
  shows "fst (download_pdf N w asset) = False
       \<and> files (snd (download_pdf N w asset)) (local_path asset) = None
       \<and> (\<forall>p. p \<noteq> local_path asset \<longrightarrow> files (snd (download_pdf N w asset)) p = files w p)
       \<and> fetch_all N w (asset # rest) = fetch_all N (snd (download_pdf N w asset)) rest
       \<and> (asset \<notin> set rest \<longrightarrow> asset \<notin> set (fst (fetch_all N w (asset # rest))))"
proof -
  note f = download_pdf_failed[OF assms]
  have run: "fetch_all N w (asset # rest) = fetch_all N (snd (download_pdf N w asset)) rest"
    using f(1) by (simp add: fetch_all_Cons del: fetch_all.simps)
  have "asset \<notin> set (fst (fetch_all N w (asset # rest)))" if "asset \<notin> set rest"
    using fetch_all_subset[of N "snd (download_pdf N w asset)" rest] that unfolding run by blast
  with f run show ?thesis by (simp add: download_pdf_other)
qed


theorem existing_files_skipped_witness:
  "populated stored_world [asset_at ''https://example.org/m.pdf'']
   \<and> download_pdf (probe_network [] [''<html>''] False) stored_world
        (asset_at ''https://example.org/m.pdf'') = (True, stored_world)
   \<and> fetch_all (probe_network [] [''<html>''] False) stored_world
        [asset_at ''https://example.org/m.pdf'']
       = ([asset_at ''https://example.org/m.pdf''], stored_world)"
proof -
  have f: "files stored_world (local_path (asset_at ''https://example.org/m.pdf'')) \<noteq> None"
    by (simp add: stored_world_def asset_at_def)
  then have p: "populated stored_world [asset_at ''https://example.org/m.pdf'']"
    by (simp add: populated_def)
  from f existing_files_skipped[of stored_world "asset_at ''https://example.org/m.pdf''"
      "probe_network [] [''<html>''] False"]
  have "download_pdf (probe_network [] [''<html>''] False) stored_world
        (asset_at ''https://example.org/m.pdf'') = (True, stored_world)"
    by blast
  moreover from p existing_files_skipped[of stored_world _ "probe_network [] [''<html>''] False"
      "[asset_at ''https://example.org/m.pdf'']"]
  have "fetch_all (probe_network [] [''<html>''] False) stored_world
        [asset_at ''https://example.org/m.pdf'']
       = ([asset_at ''https://example.org/m.pdf''], stored_world)"
    by blast
  ultimately show ?thesis using p by blast
qed

theorem failed_download_leaves_no_file_witness:
  "fst (download_pdf (probe_network [] [''<html>''] False) empty_world
          (asset_at ''https://example.org/m.pdf'')) = False
   \<and> files (snd (download_pdf (probe_network [] [''<html>''] False) empty_world
          (asset_at ''https://example.org/m.pdf'')))
        (local_path (asset_at ''https://example.org/m.pdf'')) = None
   \<and> fst (download_pdf (probe_network [] [''%PDF-1.4''] True) empty_world
          (asset_at ''https://example.org/m.pdf'')) = False
   \<and> files (snd (download_pdf (probe_network [] [''%PDF-1.4''] True) empty_world
          (asset_at ''https://example.org/m.pdf'')))
        (local_path (asset_at ''https://example.org/m.pdf'')) = None"
proof -
  have e: "files empty_world (local_path (asset_at ''https://example.org/m.pdf'')) = None"
    by (simp add: empty_world_def)
  have bad: "get_stream (probe_network [] [''<html>''] False)
          (pdf_url (asset_at ''https://example.org/m.pdf'')) = GetError
      \<or> (\<exists>code chunks broken.
            get_stream (probe_network [] [''<html>''] False)
              (pdf_url (asset_at ''https://example.org/m.pdf'')) = GetResponse code chunks broken
            \<and> (raises_for_status code \<or> broken \<or> \<not> looks_like_pdf (first_chunk chunks)))"
    by (intro disjI2 exI[of _ 200] exI[of _ "[''<html>'']"] exI[of _ False])
      (simp add: probe_network_def first_chunk_def looks_like_pdf_def lstrip_chars_def
        bytes_whitespace_def)
  have cut: "get_stream (probe_network [] [''%PDF-1.4''] True)
          (pdf_url (asset_at ''https://example.org/m.pdf'')) = GetError
      \<or> (\<exists>code chunks broken.
            get_stream (probe_network [] [''%PDF-1.4''] True)
              (pdf_url (asset_at ''https://example.org/m.pdf'')) = GetResponse code chunks broken
            \<and> (raises_for_status code \<or> broken \<or> \<not> looks_like_pdf (first_chunk chunks)))"
    by (intro disjI2 exI[of _ 200] exI[of _ "[''%PDF-1.4'']"] exI[of _ True])
      (simp add: probe_network_def)
  from failed_download_leaves_no_file[OF e bad, of "[]"]
       failed_download_leaves_no_file[OF e cut, of "[]"]
  show ?thesis by blast
qed

text \<open>
  Claim C4 as stated fails: a body whose first bytes are a space and then \<open>%PDF\<close> does
  not start with the signature, and yet it is accepted and its file is kept, because the
  check strips leading whitespace from the first chunk.
\<close>

theorem leading_whitespace_accepted:
  "\<not> prefix ''%PDF'' (concat [[], '' %PDF-1.4''])
   \<and> fst (download_pdf (probe_network [] [[], '' %PDF-1.4''] False) empty_world
          (asset_at ''https://example.org/m.pdf'')) = True
   \<and> files (snd (download_pdf (probe_network [] [[], '' %PDF-1.4''] False) empty_world
          (asset_at ''https://example.org/m.pdf'')))
        (local_path (asset_at ''https://example.org/m.pdf'')) = Some '' %PDF-1.4''"
  by (simp add: download_pdf_def probe_network_def empty_world_def asset_at_def
      raises_for_status_def looks_like_pdf_def lstrip_chars_def bytes_whitespace_def)


section \<open>Link extraction: skipped links and links that raise\<close>

lemma extract_anchor_skip:
  assumes "normalize_pdf_url L (href a) page_url = Inr url" and "urlparse L url = Inr parsed"
    and "\<not> suffix ''.pdf'' (lower url)" and "netloc parsed \<notin> set cloud_hosts"
  shows "extract_anchor L page_url code subj_label target_folder state a = Inr state"
  using assms by (cases state) (simp add: extract_anchor_def)

lemma parse_anchors_skip:
  assumes "\<And>state. extract_anchor L page_url code subj_label target_folder state a = Inr state"
  shows "parse_anchors L page_url code subj_label target_folder state (pre @ a # post)
       = parse_anchors L page_url code subj_label target_folder state (pre @ post)"
proof (induction pre arbitrary: state)
  case Nil
  show ?case by (simp add: assms)
next
  case (Cons x pre)
  show ?case
  proof (cases "extract_anchor L page_url code subj_label target_folder state x")
    case (Inl e)
    then show ?thesis by simp
  next
    case (Inr state')
    with Cons.IH[of state'] show ?thesis by simp
  qed
qed

text \<open>
  When \<open>urlparse\<close> accepts the URL that the normalization of an href returns, the anchor
  is skipped as the specification asks: if the lowered URL does not end with \<open>.pdf\<close> and
  its host is neither \<open>drive.google.com\<close> nor \<open>docs.google.com\<close>, the anchor changes
  neither the assets found nor the URLs seen and raises nothing, and the page yields what
  it yields without that anchor, wherever the anchor stands in it.
\<close>

lemma parsed_link_skipped:
  assumes "normalize_pdf_url L (href a) page_url = Inr url" and "urlparse L url = Inr parsed"
    and "\<not> suffix ''.pdf'' (lower url)" and "netloc parsed \<notin> set cloud_hosts"
  shows "extract_anchor L page_url code subj_label target_folder state a = Inr state
       \<and> parse_exam_links L (pre @ a # post) page_url code subj_label target_folder
           = parse_exam_links L (pre @ post) page_url code subj_label target_folder"
proof -
  have skip: "extract_anchor L page_url code subj_label target_folder st a = Inr st" for st
    using assms by (rule extract_anchor_skip)
  then show ?thesis
    unfolding parse_exam_links_def using parse_anchors_skip[of L page_url code subj_label target_folder a]
    by simp
qed

lemma ex_normalize:
  "normalize_pdf_url std_library ''https://example.org/list.html'' ''https://example.org/''
     = Inr ''https://example.org/list.html''"
  "urlparse std_library ''https://example.org/list.html''
     = Inr \<lparr>netloc = ''example.org'', path = ''/list.html'', query = []\<rparr>"
  "\<not> suffix ''.pdf'' (lower ''https://example.org/list.html'')"
  "normalize_pdf_url std_library ''https://telmidtice.com/telecharger?url=http://[x''
     ''https://example.org/'' = Inr ''http://[x''"
  "urlparse std_library ''http://[x'' = Inl ValueError"
  "\<not> suffix ''.pdf'' (lower ''http://[x'')"
  by code_simp+

lemma ex_links:
  "map_sum id (map pdf_url)
     (parse_exam_links std_library
        [sujet_anchor ''https://example.org/a.pdf'', sujet_anchor ''https://example.org/b.PDF'']
        ''https://example.org/'' ''Math'' ''Math'' [''bac'', ''Math''])
     = Inr [''https://example.org/a.pdf'', ''https://example.org/b.PDF'']"
  by code_simp

lemma parsed_link_skipped_example:
  "map_sum id (map pdf_url)
     (parse_exam_links std_library
        [sujet_anchor ''https://example.org/a.pdf'', sujet_anchor ''https://example.org/list.html'',
         sujet_anchor ''https://example.org/b.PDF'']
        ''https://example.org/'' ''Math'' ''Math'' [''bac'', ''Math''])
     = Inr [''https://example.org/a.pdf'', ''https://example.org/b.PDF'']"
proof -
  have n: "normalize_pdf_url std_library (href (sujet_anchor ''https://example.org/list.html''))
      ''https://example.org/'' = Inr ''https://example.org/list.html''"
    by (simp add: sujet_anchor_def ex_normalize(1))
  have h: "netloc \<lparr>netloc = ''example.org'', path = ''/list.html'', query = []\<rparr> \<notin> set cloud_hosts"
    by (simp add: cloud_hosts_def)
  from parsed_link_skipped[OF n ex_normalize(2) ex_normalize(3) h,
      of "''Math''" "''Math''" "[''bac'', ''Math'']" _ "[sujet_anchor ''https://example.org/a.pdf'']"
         "[sujet_anchor ''https://example.org/b.PDF'']"]
  have "parse_exam_links std_library
        [sujet_anchor ''https://example.org/a.pdf'', sujet_anchor ''https://example.org/list.html'',
         sujet_anchor ''https://example.org/b.PDF'']
        ''https://example.org/'' ''Math'' ''Math'' [''bac'', ''Math'']
      = parse_exam_links std_library
        [sujet_anchor ''https://example.org/a.pdf'', sujet_anchor ''https://example.org/b.PDF'']
        ''https://example.org/'' ''Math'' ''Math'' [''bac'', ''Math'']"
    by simp
  with ex_links show ?thesis by simp
qed

lemma extract_anchor_raises:
  assumes "href a \<noteq> []" and "normalize_pdf_url L (href a) page_url = Inr url" and "url \<noteq> []"
    and "urlparse L url = Inl e"
  shows "extract_anchor L page_url code subj_label target_folder state a = Inl e"
  using assms by (cases state) (simp add: extract_anchor_def)

lemma parse_anchors_raises:
  assumes "\<And>state. isl (extract_anchor L page_url code subj_label target_folder state a)"
  shows "isl (parse_anchors L page_url code subj_label target_folder state (pre @ a # post))"
proof (induction pre arbitrary: state)
  case Nil
  from assms[of state] show ?case by (auto simp: isl_def)
next
  case (Cons x pre)
  show ?case
  proof (cases "extract_anchor L page_url code subj_label target_folder state x")
    case (Inl e)
    then show ?thesis by simp
  next
    case (Inr state')
    with Cons.IH[of state'] show ?thesis by simp
  qed
qed

lemma harvest_pages_raises:
  assumes "get_page N page_url = PageResponse status_code anchors"
    and "\<not> raises_for_status status_code"
    and "isl (parse_exam_links L anchors page_url code subj_label subj_folder)"
  shows "isl (harvest_pages L N code subj_label subj_folder assets (before @ page_url # rest))"
proof (induction before arbitrary: assets)
  case Nil
  from assms show ?case by (auto simp: isl_def)
next
  case (Cons p before)
  show ?case
  proof (cases "get_page N p")
    case PageError
    with Cons.IH show ?thesis by simp
  next
    case (PageResponse st as)
    show ?thesis
    proof (cases "raises_for_status st")
      case True
      with PageResponse Cons.IH show ?thesis by simp
    next
      case False
      show ?thesis
      proof (cases "parse_exam_links L as p code subj_label subj_folder")
        case (Inl e)
        with PageResponse False show ?thesis by simp
      next
        case (Inr new_assets)
        with PageResponse False Cons.IH show ?thesis by simp
      qed
    qed
  qed
qed

text \<open>
  Claim C8 fails: a defect of the code. Let the normalization of an href return a URL
  that \<open>urlparse\<close> rejects. Such a URL has no recognized host, and it may well not end
  with \<open>.pdf\<close>, but the anchor is not skipped: \<open>urlparse\<close> is called before the test and
  nothing catches its exception. Whatever was found before, the anchor raises; the
  extraction of every page that holds the anchor raises, the anchors after it never
  looked at; and so does the harvest of a subject as soon as one of its pages answers
  with that anchor.
\<close>

theorem unparsed_link_raises:
  assumes "href a \<noteq> []" and "normalize_pdf_url L (href a) page_url = Inr url" and "url \<noteq> []"
    and "urlparse L url = Inl e"
  shows "extract_anchor L page_url code subj_label target_folder state a = Inl e
       \<and> isl (parse_exam_links L (pre @ a # post) page_url code subj_label target_folder)
       \<and> (get_page N page_url = PageResponse status_code (pre @ a # post)
            \<and> \<not> raises_for_status status_code
          \<longrightarrow> isl (harvest_subject L N code subj_label target_folder
                     (before @ page_url # rest)))"
proof -
  have raises: "extract_anchor L page_url code subj_label target_folder st a = Inl e" for st
    using assms by (rule extract_anchor_raises)
  then have page: "isl (parse_exam_links L (pre @ a # post) page_url code subj_label target_folder)"
    unfolding parse_exam_links_def
    using parse_anchors_raises[of L page_url code subj_label target_folder a] by simp
  from raises page show ?thesis
    unfolding harvest_subject_def using harvest_pages_raises by blast
qed

text \<open>
  A download-helper link may carry any text as its target. Here the normalized URL is
  \<open>http://[x\<close>, which does not end with \<open>.pdf\<close> and which \<open>urlparse\<close> rejects with
  \<open>ValueError\<close> for the bracket that is not closed: the page, which holds two documents
  besides, yields the exception and no candidate, and so does the harvest of the subject.
\<close>

theorem unparsed_link_raises_witness:
  "normalize_pdf_url std_library (href (sujet_anchor bad_link)) ''https://example.org/''
     = Inr ''http://[x''
   \<and> \<not> suffix ''.pdf'' (lower ''http://[x'')
   \<and> urlparse std_library ''http://[x'' = Inl ValueError
   \<and> parse_exam_links std_library
        [sujet_anchor ''https://example.org/a.pdf'', sujet_anchor bad_link,
         sujet_anchor ''https://example.org/b.PDF'']
        ''https://example.org/'' ''Math'' ''Math'' [''bac'', ''Math''] = Inl ValueError
   \<and> harvest_subject std_library
        (page_network [sujet_anchor ''https://example.org/a.pdf'', sujet_anchor bad_link,
                       sujet_anchor ''https://example.org/b.PDF''])
        ''Math'' ''Math'' [''bac'', ''Math''] [''https://example.org/''] = Inl ValueError"
proof -
  have h: "href (sujet_anchor bad_link) \<noteq> []" by (simp add: sujet_anchor_def bad_link_def)
  have n: "normalize_pdf_url std_library (href (sujet_anchor bad_link)) ''https://example.org/''
     = Inr ''http://[x''"
    unfolding sujet_anchor_def bad_link_def using ex_normalize(4) by simp
  have u: "''http://[x'' \<noteq> []" by simp
  have g: "get_page (page_network [sujet_anchor ''https://example.org/a.pdf'', sujet_anchor bad_link,
                       sujet_anchor ''https://example.org/b.PDF'']) ''https://example.org/''
      = PageResponse 200 ([sujet_anchor ''https://example.org/a.pdf''] @ sujet_anchor bad_link
          # [sujet_anchor ''https://example.org/b.PDF''])"
    by (simp add: page_network_def)
  have r: "\<not> raises_for_status 200" by (simp add: raises_for_status_def)
  from unparsed_link_raises[OF h n u ex_normalize(5),
      of "''Math''" "''Math''" "[''bac'', ''Math'']" _ "[sujet_anchor ''https://example.org/a.pdf'']"
         "[sujet_anchor ''https://example.org/b.PDF'']" _ 200 "[]" "[]"] g r
  have p: "isl (parse_exam_links std_library
        [sujet_anchor ''https://example.org/a.pdf'', sujet_anchor bad_link,
         sujet_anchor ''https://example.org/b.PDF'']
        ''https://example.org/'' ''Math'' ''Math'' [''bac'', ''Math''])"
    and s: "isl (harvest_subject std_library
        (page_network [sujet_anchor ''https://example.org/a.pdf'', sujet_anchor bad_link,
                       sujet_anchor ''https://example.org/b.PDF''])
        ''Math'' ''Math'' [''bac'', ''Math''] [''https://example.org/''])"
    by simp_all
  have v: "isl x \<Longrightarrow> x = Inl ValueError" for x :: "exc + ExamAsset list"
    by (cases x) (auto intro: exc.exhaust)
  from n ex_normalize(6) ex_normalize(5) v[OF p] v[OF s] show ?thesis by (intro conjI)
qed

end
